theory Spec2Isabelle
  imports Complex_Main
begin

section \<open>Arithmetic and vectors\<close>

text \<open>
  The program computes with C++ \<^verbatim>\<open>int\<close>, \<^verbatim>\<open>unsigned int\<close>, \<^verbatim>\<open>float\<close> and \<^verbatim>\<open>double\<close>.

  An \<^verbatim>\<open>int\<close> is a 32-bit signed integer. The model computes with \<^typ>\<open>int\<close> and checks
  the range after every addition and multiplication: a result outside
  \<open>[INT_MIN, INT_MAX]\<close> is undefined behaviour in C++, and the model stops there with the
  error \<open>SignedOverflow\<close>. An \<^verbatim>\<open>int\<close> stored into a \<^verbatim>\<open>std::vector<unsigned int>\<close> is
  converted modulo \<open>2\<^sup>3\<^sup>2\<close>.

  \<^verbatim>\<open>push_back\<close> throws when the allocator cannot provide the storage. Whether it can is
  decided by the environment, which the model takes as a parameter \<open>capacity\<close>: the
  largest number of elements to which a vector can grow. A \<^verbatim>\<open>push_back\<close> on a vector of
  \<open>capacity\<close> elements ends the call with the error \<open>BadAlloc\<close>.
\<close>

datatype error = SignedOverflow | BadAlloc

definition INT_MAX :: int where
  "INT_MAX = 2147483647"

definition INT_MIN :: int where
  "INT_MIN = - 2147483648"

definition int_add :: "int \<Rightarrow> int \<Rightarrow> error + int" where
  "int_add a b = (if INT_MIN \<le> a + b \<and> a + b \<le> INT_MAX then Inr (a + b) else Inl SignedOverflow)"

definition int_mul :: "int \<Rightarrow> int \<Rightarrow> error + int" where
  "int_mul a b = (if INT_MIN \<le> a * b \<and> a * b \<le> INT_MAX then Inr (a * b) else Inl SignedOverflow)"

definition to_unsigned :: "int \<Rightarrow> int" where
  "to_unsigned k = k mod 4294967296"

definition push_back :: "nat \<Rightarrow> 'a list \<Rightarrow> 'a \<Rightarrow> error + 'a list" where
  "push_back capacity v x = (if length v < capacity then Inr (v @ [x]) else Inl BadAlloc)"

text \<open>Sequencing of steps that can fail: the first error ends the computation.\<close>

definition and_then :: "error + 'a \<Rightarrow> ('a \<Rightarrow> error + 'b) \<Rightarrow> error + 'b" where
  "and_then m f = (case m of Inl e \<Rightarrow> Inl e | Inr x \<Rightarrow> f x)"

text \<open>What a call that can fail hands back: whether it returned normally, and the value.\<close>

definition returns :: "error + 'a \<Rightarrow> bool" where
  "returns r = (case r of Inl e \<Rightarrow> False | Inr x \<Rightarrow> True)"

text \<open>
  A \<^verbatim>\<open>float\<close> is an IEEE 754 binary32 number: a sign, 24 significant bits and an exponent
  from \<open>-126\<close> to 127, or an infinity, or a NaN. A finite \<^verbatim>\<open>float\<close> is modelled by the
  \<^typ>\<open>real\<close> it denotes. \<open>round32\<close> is rounding to the nearest binary32 number, ties to
  the even significand: \<open>ulp32 x\<close> is the distance between neighbouring binary32 numbers
  at the magnitude of \<open>x\<close> (\<open>2\<^sup>-\<^sup>1\<^sup>4\<^sup>9\<close> in the subnormal range), and \<open>x\<close> is rounded to the
  nearest multiple of it. It is the value the hardware produces for every \<open>x\<close> of
  magnitude below \<open>2\<^sup>1\<^sup>2\<^sup>8 - 2\<^sup>1\<^sup>0\<^sup>3\<close>; from there on the hardware produces an infinity.

  The model does not round every operation. Rounding is written out where the program
  later depends on the difference of two rounded values:
  the conversion of the loop counters of \<^verbatim>\<open>generateSphere\<close> from \<^verbatim>\<open>int\<close> to \<^verbatim>\<open>float\<close>
  (neighbouring counters from \<open>2\<^sup>2\<^sup>4\<close> on convert to the same \<^verbatim>\<open>float\<close>), the sum
  \<^verbatim>\<open>planeAngle + 0.01f\<close> and the update \<^verbatim>\<open>planeAngle += planeSpeed * deltaTime\<close> (a small
  addend is absorbed by a large angle). Overflow to infinity is written out for the one
  quotient that can overflow, \<^verbatim>\<open>1.0f / radius\<close>, and for the products with it. All other
  sums, products and quotients are exact, \<^verbatim>\<open>M_PI\<close> is \<^term>\<open>pi\<close>, and \<^verbatim>\<open>sinf\<close>, \<^verbatim>\<open>cosf\<close>,
  \<^verbatim>\<open>sin\<close>, \<^verbatim>\<open>cos\<close> are \<^term>\<open>sin\<close> and \<^term>\<open>cos\<close>: there the program differs from the model
  by a rounding error of at most half the distance between neighbouring \<^verbatim>\<open>float\<close>
  values per operation, and statements that the specification makes "within floating
  tolerance" are proved as equations of the model. The arguments of the functions
  below that stand for \<^verbatim>\<open>float\<close> parameters are finite.
\<close>

definition rne :: "real \<Rightarrow> int" where
  "rne q =
     (let f = \<lfloor>q\<rfloor>
      in if q - of_int f < 1 / 2 then f
         else if q - of_int f > 1 / 2 then f + 1
         else if even f then f else f + 1)"

definition exponent32 :: "real \<Rightarrow> int" where
  "exponent32 x = max \<lfloor>log 2 \<bar>x\<bar>\<rfloor> (- 126)"

definition ulp32 :: "real \<Rightarrow> real" where
  "ulp32 x = 2 powr real_of_int (exponent32 x - 23)"

definition round32 :: "real \<Rightarrow> real" where
  "round32 x = (if x = 0 then 0 else real_of_int (rne (x / ulp32 x)) * ulp32 x)"

text \<open>The conversion of an \<^verbatim>\<open>int\<close> to \<^verbatim>\<open>float\<close>.\<close>

definition float_of_int :: "int \<Rightarrow> real" where
  "float_of_int k = round32 (real_of_int k)"

text \<open>The values a \<^verbatim>\<open>float\<close> variable can hold when the operation that computed it can
  overflow, and the two operations of the program of which that is true. A quotient or
  product of magnitude \<open>2\<^sup>1\<^sup>2\<^sup>8 - 2\<^sup>1\<^sup>0\<^sup>3\<close> or more is an infinity; the product of zero and
  an infinity is a NaN. The sign of a zero is not modelled.\<close>

datatype fp = Finite real | PosInf | NegInf | NaN

definition overflow_threshold :: real where
  "overflow_threshold = 2 ^ 128 - 2 ^ 103"

definition overflow32 :: "real \<Rightarrow> fp" where
  "overflow32 x =
     (if overflow_threshold \<le> x then PosInf
      else if x \<le> - overflow_threshold then NegInf
      else Finite x)"

definition float_div :: "real \<Rightarrow> real \<Rightarrow> fp" where
  "float_div a b =
     (if b = 0 then (if a = 0 then NaN else if 0 < a then PosInf else NegInf)
      else overflow32 (a / b))"

definition float_mul :: "real \<Rightarrow> fp \<Rightarrow> fp" where
  "float_mul a b =
     (case b of
        Finite y \<Rightarrow> overflow32 (a * y)
      | PosInf \<Rightarrow> (if a = 0 then NaN else if 0 < a then PosInf else NegInf)
      | NegInf \<Rightarrow> (if a = 0 then NaN else if 0 < a then NegInf else PosInf)
      | NaN \<Rightarrow> NaN)"

text \<open>
  \<^verbatim>\<open>glm::vec3\<close> and the glm operations the program calls are modelled by their
  mathematical definitions on vectors of finite components.
\<close>

datatype vec3 = Vec3 (vx: real) (vy: real) (vz: real)

definition vadd :: "vec3 \<Rightarrow> vec3 \<Rightarrow> vec3" where
  "vadd a b = Vec3 (vx a + vx b) (vy a + vy b) (vz a + vz b)"

definition vsub :: "vec3 \<Rightarrow> vec3 \<Rightarrow> vec3" where
  "vsub a b = Vec3 (vx a - vx b) (vy a - vy b) (vz a - vz b)"

definition vscale :: "vec3 \<Rightarrow> real \<Rightarrow> vec3" where
  "vscale a k = Vec3 (vx a * k) (vy a * k) (vz a * k)"

definition dot :: "vec3 \<Rightarrow> vec3 \<Rightarrow> real" where
  "dot a b = vx a * vx b + vy a * vy b + vz a * vz b"

definition cross :: "vec3 \<Rightarrow> vec3 \<Rightarrow> vec3" where
  "cross a b = Vec3 (vy a * vz b - vy b * vz a)
                    (vz a * vx b - vz b * vx a)
                    (vx a * vy b - vx b * vy a)"

definition vlength :: "vec3 \<Rightarrow> real" where
  "vlength a = sqrt (dot a a)"

text \<open>\<^verbatim>\<open>glm::normalize(v)\<close> is \<^verbatim>\<open>v * inversesqrt(dot(v, v))\<close>; it is named
  \<open>normalize_vec\<close> here, since \<open>normalize\<close> is a constant of HOL. At the zero vector glm
  divides by zero and returns NaN components, while \<open>1 / 0 = 0\<close> in HOL: the theorems
  below use \<open>normalize_vec\<close> only where its argument is shown to be non-zero.\<close>

definition normalize_vec :: "vec3 \<Rightarrow> vec3" where
  "normalize_vec v = vscale v (1 / sqrt (dot v v))"

section \<open>The sphere mesh generator\<close>

text \<open>
  \<^verbatim>\<open>generateSphere\<close> (main.cpp and sphere.h hold the same text) appends to two vectors
  passed by reference. The model takes the vectors' initial contents and returns the
  final ones, or the error that ended the call. Each \<^verbatim>\<open>for\<close> loop is a recursive
  function of its counter; the body of a loop is the scrutinee of the \<open>case\<close>, the
  increment and the next iteration follow it.

  The counters \<open>i\<close> and \<open>j\<close> are converted to \<^verbatim>\<open>float\<close> where they are multiplied by a
  \<^verbatim>\<open>float\<close> step. The step counts \<open>sectors\<close> and \<open>stacks\<close> are converted to \<^verbatim>\<open>double\<close>,
  which is exact. \<^verbatim>\<open>stacks - 1\<close> is computed only when \<open>i < stacks\<close> holds for an \<open>i\<close>
  from 0 on, so it cannot overflow. With \<open>sectors = 0\<close> or \<open>stacks = 0\<close> a step is a
  quotient by zero, which is an infinity in the program and 0 in HOL; the theorems
  below are about positive counts.
\<close>

function vertex_sector_loop ::
  "nat \<Rightarrow> int \<Rightarrow> real \<Rightarrow> fp \<Rightarrow> real \<Rightarrow> real \<Rightarrow> int \<Rightarrow> fp list \<Rightarrow> error + fp list" where
  "vertex_sector_loop capacity sectors sectorStep lengthInv xy z j vertices =
     (if j \<le> sectors then
        case
          (let sectorAngle = float_of_int j * sectorStep;
               x = xy * cos sectorAngle;
               y = xy * sin sectorAngle
           in and_then (push_back capacity vertices (Finite x)) (\<lambda>vertices.
              and_then (push_back capacity vertices (Finite y)) (\<lambda>vertices.
              and_then (push_back capacity vertices (Finite z)) (\<lambda>vertices.
              let nx = float_mul x lengthInv;
                  ny = float_mul y lengthInv;
                  nz = float_mul z lengthInv
              in and_then (push_back capacity vertices nx) (\<lambda>vertices.
                 and_then (push_back capacity vertices ny) (\<lambda>vertices.
                 push_back capacity vertices nz))))))
        of Inl e \<Rightarrow> Inl e
         | Inr vertices \<Rightarrow>
             (case int_add j 1 of
                Inl e \<Rightarrow> Inl e
              | Inr j \<Rightarrow> vertex_sector_loop capacity sectors sectorStep lengthInv xy z j vertices)
      else Inr vertices)"
  by pat_completeness auto
termination
  by (relation "measure (\<lambda>(capacity, sectors, sectorStep, lengthInv, xy, z, j, vertices).
        nat (sectors + 1 - j))") (auto simp: int_add_def split: if_splits)

function vertex_stack_loop ::
  "nat \<Rightarrow> real \<Rightarrow> int \<Rightarrow> int \<Rightarrow> real \<Rightarrow> real \<Rightarrow> fp \<Rightarrow> int \<Rightarrow> fp list \<Rightarrow> error + fp list" where
  "vertex_stack_loop capacity radius sectors stacks sectorStep stackStep lengthInv i vertices =
     (if i \<le> stacks then
        case
          (let stackAngle = pi / 2 - float_of_int i * stackStep;
               xy = radius * cos stackAngle;
               z = radius * sin stackAngle
           in vertex_sector_loop capacity sectors sectorStep lengthInv xy z 0 vertices)
        of Inl e \<Rightarrow> Inl e
         | Inr vertices \<Rightarrow>
             (case int_add i 1 of
                Inl e \<Rightarrow> Inl e
              | Inr i \<Rightarrow> vertex_stack_loop capacity radius sectors stacks sectorStep stackStep
                          lengthInv i vertices)
      else Inr vertices)"
  by pat_completeness auto
termination
  by (relation "measure (\<lambda>(capacity, radius, sectors, stacks, sectorStep, stackStep, lengthInv,
        i, vertices). nat (stacks + 1 - i))") (auto simp: int_add_def split: if_splits)

function index_sector_loop ::
  "nat \<Rightarrow> int \<Rightarrow> int \<Rightarrow> int \<Rightarrow> int \<Rightarrow> int \<Rightarrow> int \<Rightarrow> int list \<Rightarrow> error + int list" where
  "index_sector_loop capacity sectors stacks i j k1 k2 indices =
     (if j < sectors then
        case
          and_then
            (if i \<noteq> 0 then
               and_then (push_back capacity indices (to_unsigned k1)) (\<lambda>indices.
               and_then (push_back capacity indices (to_unsigned k2)) (\<lambda>indices.
               and_then (int_add k1 1) (\<lambda>k.
               push_back capacity indices (to_unsigned k))))
             else Inr indices)
            (\<lambda>indices.
               if i \<noteq> stacks - 1 then
                 and_then (int_add k1 1) (\<lambda>k.
                 and_then (push_back capacity indices (to_unsigned k)) (\<lambda>indices.
                 and_then (push_back capacity indices (to_unsigned k2)) (\<lambda>indices.
                 and_then (int_add k2 1) (\<lambda>k.
                 push_back capacity indices (to_unsigned k)))))
               else Inr indices)
        of Inl e \<Rightarrow> Inl e
         | Inr indices \<Rightarrow>
             (case int_add j 1 of
                Inl e \<Rightarrow> Inl e
              | Inr j \<Rightarrow>
                  (case int_add k1 1 of
                     Inl e \<Rightarrow> Inl e
                   | Inr k1 \<Rightarrow>
                       (case int_add k2 1 of
                          Inl e \<Rightarrow> Inl e
                        | Inr k2 \<Rightarrow>
                            index_sector_loop capacity sectors stacks i j k1 k2 indices)))
      else Inr indices)"
  by pat_completeness auto
termination
  by (relation "measure (\<lambda>(capacity, sectors, stacks, i, j, k1, k2, indices). nat (sectors - j))")
     (auto simp: int_add_def split: if_splits)

function index_stack_loop :: "nat \<Rightarrow> int \<Rightarrow> int \<Rightarrow> int \<Rightarrow> int list \<Rightarrow> error + int list" where
  "index_stack_loop capacity sectors stacks i indices =
     (if i < stacks then
        case
          and_then (int_add sectors 1) (\<lambda>w.
          and_then (int_mul i w) (\<lambda>k1.
          and_then (int_add k1 sectors) (\<lambda>k.
          and_then (int_add k 1) (\<lambda>k2.
          index_sector_loop capacity sectors stacks i 0 k1 k2 indices))))
        of Inl e \<Rightarrow> Inl e
         | Inr indices \<Rightarrow>
             (case int_add i 1 of
                Inl e \<Rightarrow> Inl e
              | Inr i \<Rightarrow> index_stack_loop capacity sectors stacks i indices)
      else Inr indices)"
  by pat_completeness auto
termination
  by (relation "measure (\<lambda>(capacity, sectors, stacks, i, indices). nat (stacks - i))")
     (auto simp: int_add_def split: if_splits)

text \<open>The loops' defining equations unfold forever as rewrite rules; the proofs below
  unfold them one iteration at a time.\<close>

declare vertex_sector_loop.simps [simp del]
declare vertex_stack_loop.simps [simp del]
declare index_sector_loop.simps [simp del]
declare index_stack_loop.simps [simp del]

definition generateSphere ::
  "nat \<Rightarrow> real \<Rightarrow> int \<Rightarrow> int \<Rightarrow> fp list \<Rightarrow> int list \<Rightarrow> error + fp list \<times> int list" where
  "generateSphere capacity radius sectors stacks vertices indices =
     (let lengthInv = float_div 1 radius;
          sectorStep = 2 * pi / real_of_int sectors;
          stackStep = pi / real_of_int stacks
      in and_then (vertex_stack_loop capacity radius sectors stacks sectorStep stackStep
                     lengthInv 0 vertices) (\<lambda>vertices.
         and_then (index_stack_loop capacity sectors stacks 0 indices) (\<lambda>indices.
         Inr (vertices, indices))))"

text \<open>The two vectors after a call; they are read only where the call is shown to return.\<close>

definition vertices_of :: "error + fp list \<times> int list \<Rightarrow> fp list" where
  "vertices_of r = (case r of Inl e \<Rightarrow> [] | Inr (vertices, indices) \<Rightarrow> vertices)"

definition indices_of :: "error + fp list \<times> int list \<Rightarrow> int list" where
  "indices_of r = (case r of Inl e \<Rightarrow> [] | Inr (vertices, indices) \<Rightarrow> indices)"

text \<open>
  The vertex buffer is read with a stride of six floats: the position at offset 0 and
  the normal at offset 3 (the two \<^verbatim>\<open>glVertexAttribPointer\<close> calls of \<^verbatim>\<open>main\<close>). A position
  or normal is a vector when its three components are finite. The index buffer is
  drawn as \<^verbatim>\<open>GL_TRIANGLES\<close>: three consecutive indices make a triangle.
\<close>

definition finite_vec3 :: "fp \<Rightarrow> fp \<Rightarrow> fp \<Rightarrow> vec3 option" where
  "finite_vec3 a b c =
     (case a of
        Finite x \<Rightarrow>
          (case b of
             Finite y \<Rightarrow> (case c of Finite z \<Rightarrow> Some (Vec3 x y z) | _ \<Rightarrow> None)
           | _ \<Rightarrow> None)
      | _ \<Rightarrow> None)"

definition vertex_count :: "fp list \<Rightarrow> nat" where
  "vertex_count vertices = length vertices div 6"

definition vertex_position :: "fp list \<Rightarrow> nat \<Rightarrow> vec3 option" where
  "vertex_position vertices k =
     finite_vec3 (vertices ! (6 * k)) (vertices ! (6 * k + 1)) (vertices ! (6 * k + 2))"

definition vertex_normal :: "fp list \<Rightarrow> nat \<Rightarrow> vec3 option" where
  "vertex_normal vertices k =
     finite_vec3 (vertices ! (6 * k + 3)) (vertices ! (6 * k + 4)) (vertices ! (6 * k + 5))"





subsection \<open>Closed forms of the loops\<close>

text \<open>What each loop appends when no step fails, written without recursion; the proofs
  relate the loops to these lists.\<close>

definition vertex6 :: "real \<Rightarrow> fp \<Rightarrow> real \<Rightarrow> real \<Rightarrow> int \<Rightarrow> fp list" where
  "vertex6 sectorStep lengthInv xy z j =
     [Finite (xy * cos (float_of_int j * sectorStep)),
      Finite (xy * sin (float_of_int j * sectorStep)),
      Finite z,
      float_mul (xy * cos (float_of_int j * sectorStep)) lengthInv,
      float_mul (xy * sin (float_of_int j * sectorStep)) lengthInv,
      float_mul z lengthInv]"

definition vertex_row :: "real \<Rightarrow> int \<Rightarrow> real \<Rightarrow> real \<Rightarrow> fp \<Rightarrow> int \<Rightarrow> fp list" where
  "vertex_row radius sectors sectorStep stackStep lengthInv i =
     concat (map (vertex6 sectorStep lengthInv
                    (radius * cos (pi / 2 - float_of_int i * stackStep))
                    (radius * sin (pi / 2 - float_of_int i * stackStep))) [0..sectors])"

definition index_cell :: "int \<Rightarrow> int \<Rightarrow> int \<Rightarrow> int \<Rightarrow> int list" where
  "index_cell sectors stacks i j =
     (if i \<noteq> 0 then [i * (sectors + 1) + j, i * (sectors + 1) + j + sectors + 1, i * (sectors + 1) + j + 1] else []) @
     (if i \<noteq> stacks - 1 then [i * (sectors + 1) + j + 1, i * (sectors + 1) + j + sectors + 1, i * (sectors + 1) + j + sectors + 2] else [])"

definition index_row :: "int \<Rightarrow> int \<Rightarrow> int \<Rightarrow> int list" where
  "index_row sectors stacks i = concat (map (index_cell sectors stacks i) [0..sectors - 1])"

definition sphere_vertices :: "real \<Rightarrow> int \<Rightarrow> int \<Rightarrow> fp list" where
  "sphere_vertices radius sectors stacks =
     concat (map (vertex_row radius sectors (2 * pi / real_of_int sectors)
                    (pi / real_of_int stacks) (float_div 1 radius)) [0..stacks])"

definition sphere_indices :: "int \<Rightarrow> int \<Rightarrow> int list" where
  "sphere_indices sectors stacks = concat (map (index_row sectors stacks) [0..stacks - 1])"

definition sphere_point :: "real \<Rightarrow> real \<Rightarrow> real \<Rightarrow> vec3" where
  "sphere_point r phi theta =
     Vec3 (r * cos phi * cos theta) (r * cos phi * sin theta) (r * sin phi)"




section \<open>The camera model\<close>

text \<open>
  The camera state is the set of global variables of main.cpp, which are also the fields
  of \<^verbatim>\<open>class Camera\<close> in camera.h, together with the function-local static
  \<^verbatim>\<open>spacePressed\<close> of \<^verbatim>\<open>processInput\<close>. The functions below follow main.cpp; camera.h holds
  the same code as methods (\<^verbatim>\<open>getViewMatrix\<close>, \<^verbatim>\<open>getViewPosition\<close>, \<^verbatim>\<open>processKeyboard\<close>,
  \<^verbatim>\<open>processMouseMovement\<close>, \<^verbatim>\<open>processMouseButton\<close>, \<^verbatim>\<open>processScroll\<close>) and differs only in
  the least altitude, 1.08 instead of 1.05. Console output and the window's close flag
  are not part of the state.
\<close>

record camera =
  planeAltitude :: real
  planeSpeed :: real
  planeAngle :: real
  planeTilt :: real
  manualControl :: bool
  cameraDistance :: real
  cameraAngleX :: real
  cameraAngleY :: real
  lastX :: real
  lastY :: real
  firstMouse :: bool
  mousePressed :: bool
  globeRotationX :: real
  globeRotationY :: real
  spacePressed :: bool

text \<open>The initial values of the globals; the window is 800 by 600.\<close>

definition init_camera :: camera where
  "init_camera =
     \<lparr> planeAltitude = 1.05, planeSpeed = 0.3, planeAngle = 0, planeTilt = 0.15,
       manualControl = False, cameraDistance = 3, cameraAngleX = 0, cameraAngleY = 0,
       lastX = 800 / 2, lastY = 600 / 2, firstMouse = True, mousePressed = False,
       globeRotationX = 0, globeRotationY = 0, spacePressed = False \<rparr>"

text \<open>The keys the program polls; a keyboard tells which of them \<^verbatim>\<open>glfwGetKey\<close> reports
  as \<^verbatim>\<open>GLFW_PRESS\<close>.\<close>

datatype key = KEY_ESCAPE | KEY_SPACE | KEY_UP | KEY_DOWN | KEY_LEFT | KEY_RIGHT

type_synonym keyboard = "key \<Rightarrow> bool"

datatype mouse_button = MOUSE_BUTTON_LEFT | MOUSE_BUTTON_OTHER

datatype key_action = ACTION_RELEASE | ACTION_PRESS | ACTION_REPEAT

subsection \<open>Input callbacks\<close>

definition mouse_callback :: "real \<Rightarrow> real \<Rightarrow> camera \<Rightarrow> camera" where
  "mouse_callback xpos ypos s =
     (if \<not> mousePressed s \<or> \<not> manualControl s then s
      else
        let s = (if firstMouse s
                 then s\<lparr>lastX := xpos, lastY := ypos, firstMouse := False\<rparr> else s);
            xoffset = xpos - lastX s;
            yoffset = lastY s - ypos;
            s = s\<lparr>lastX := xpos, lastY := ypos\<rparr>;
            sensitivity = 0.01;
            s = s\<lparr>cameraAngleX := cameraAngleX s + xoffset * sensitivity\<rparr>;
            s = s\<lparr>cameraAngleY := cameraAngleY s + yoffset * sensitivity\<rparr>;
            s = (if cameraAngleY s > 1.5 then s\<lparr>cameraAngleY := 1.5\<rparr> else s);
            s = (if cameraAngleY s < - 1.5 then s\<lparr>cameraAngleY := - 1.5\<rparr> else s)
        in s)"

definition mouse_button_callback :: "mouse_button \<Rightarrow> key_action \<Rightarrow> camera \<Rightarrow> camera" where
  "mouse_button_callback button action s =
     (if button = MOUSE_BUTTON_LEFT then
        (if action = ACTION_PRESS then s\<lparr>mousePressed := True, firstMouse := True\<rparr>
         else if action = ACTION_RELEASE then s\<lparr>mousePressed := False\<rparr>
         else s)
      else s)"

definition scroll_callback :: "real \<Rightarrow> real \<Rightarrow> camera \<Rightarrow> camera" where
  "scroll_callback xoffset yoffset s =
     (let s = s\<lparr>cameraDistance := cameraDistance s - yoffset * 0.1\<rparr>;
          s = (if cameraDistance s < 1.5 then s\<lparr>cameraDistance := 1.5\<rparr> else s);
          s = (if cameraDistance s > 10 then s\<lparr>cameraDistance := 10\<rparr> else s)
      in s)"

text \<open>\<^verbatim>\<open>processInput\<close> in three parts, in the order of the source: the SPACE toggle, then
  either the plane controls with their clamps or the globe rotation.\<close>

definition toggle_manual :: "keyboard \<Rightarrow> camera \<Rightarrow> camera" where
  "toggle_manual pressed s =
     (if pressed KEY_SPACE then
        let s = (if \<not> spacePressed s then s\<lparr>manualControl := \<not> manualControl s\<rparr> else s)
        in s\<lparr>spacePressed := True\<rparr>
      else s\<lparr>spacePressed := False\<rparr>)"

definition plane_controls :: "keyboard \<Rightarrow> camera \<Rightarrow> camera" where
  "plane_controls pressed s =
     (let s = (if pressed KEY_UP then s\<lparr>planeSpeed := planeSpeed s + 0.01\<rparr> else s);
          s = (if pressed KEY_DOWN then s\<lparr>planeSpeed := planeSpeed s - 0.01\<rparr> else s);
          s = (if pressed KEY_LEFT then s\<lparr>planeAltitude := planeAltitude s - 0.01\<rparr> else s);
          s = (if pressed KEY_RIGHT then s\<lparr>planeAltitude := planeAltitude s + 0.01\<rparr> else s);
          s = (if planeSpeed s < 0 then s\<lparr>planeSpeed := 0\<rparr> else s);
          s = (if planeSpeed s > 2 then s\<lparr>planeSpeed := 2\<rparr> else s);
          s = (if planeAltitude s < 1.05 then s\<lparr>planeAltitude := 1.05\<rparr> else s);
          s = (if planeAltitude s > 2 then s\<lparr>planeAltitude := 2\<rparr> else s)
      in s)"

definition globe_controls :: "keyboard \<Rightarrow> camera \<Rightarrow> camera" where
  "globe_controls pressed s =
     (let rotSpeed = 0.02;
          s = (if pressed KEY_LEFT then s\<lparr>globeRotationY := globeRotationY s - rotSpeed\<rparr> else s);
          s = (if pressed KEY_RIGHT then s\<lparr>globeRotationY := globeRotationY s + rotSpeed\<rparr> else s);
          s = (if pressed KEY_UP then s\<lparr>globeRotationX := globeRotationX s - rotSpeed\<rparr> else s);
          s = (if pressed KEY_DOWN then s\<lparr>globeRotationX := globeRotationX s + rotSpeed\<rparr> else s)
      in s)"

definition processInput :: "keyboard \<Rightarrow> camera \<Rightarrow> camera" where
  "processInput pressed s =
     (let s = toggle_manual pressed s
      in if \<not> manualControl s then plane_controls pressed s else globe_controls pressed s)"

subsection \<open>The view of a frame\<close>

text \<open>\<^verbatim>\<open>glm::lookAt(eye, center, up)\<close> is kept as the triple of its arguments.\<close>

datatype view = LookAt (eye: vec3) (center: vec3) (upward: vec3)

text \<open>The local variables of the automatic branch, computed from the state whose angle
  has already been advanced. The source assigns \<^verbatim>\<open>up\<close> twice; the record holds the
  final value. \<^verbatim>\<open>nextAngle\<close> is the \<^verbatim>\<open>float\<close> sum of the angle and the literal \<^verbatim>\<open>0.01f\<close>,
  which is the \<^verbatim>\<open>float\<close> nearest to 0.01.\<close>

record plane_locals =
  planePos :: vec3
  nextPos :: vec3
  forward :: vec3
  right :: vec3
  up :: vec3
  lookTarget :: vec3

definition plane_view :: "camera \<Rightarrow> plane_locals" where
  "plane_view s =
     (let pathVariation = sin (planeAngle s * 2) * 0.4;
          planeX = planeAltitude s * cos (planeAngle s);
          planeY = pathVariation;
          planeZ = planeAltitude s * sin (planeAngle s);
          planePos = Vec3 planeX planeY planeZ;
          planePos = vscale (normalize_vec planePos) (planeAltitude s);
          nextAngle = round32 (planeAngle s + round32 0.01);
          nextPathVariation = sin (nextAngle * 2) * 0.4;
          nextPos = vscale (normalize_vec (Vec3 (planeAltitude s * cos nextAngle)
                                            nextPathVariation
                                            (planeAltitude s * sin nextAngle)))
                           (planeAltitude s);
          forward = normalize_vec (vsub nextPos planePos);
          up = normalize_vec planePos;
          right = cross forward up;
          up = cross right forward;
          lookTarget = vadd (vadd planePos forward) (vscale up (- planeTilt s))
      in \<lparr> planePos = planePos, nextPos = nextPos, forward = forward, right = right,
           up = up, lookTarget = lookTarget \<rparr>)"

text \<open>The view query. In the automatic branch \<^verbatim>\<open>planeAngle += planeSpeed * deltaTime\<close> is
  a \<^verbatim>\<open>float\<close> product followed by a \<^verbatim>\<open>float\<close> sum, each rounded to the nearest \<^verbatim>\<open>float\<close>
  (the target evaluates \<^verbatim>\<open>float\<close> expressions in \<^verbatim>\<open>float\<close>, as x86-64 does).\<close>

definition getViewMatrix :: "real \<Rightarrow> camera \<Rightarrow> view \<times> camera" where
  "getViewMatrix deltaTime s =
     (if \<not> manualControl s then
        let s = s\<lparr>planeAngle := round32 (planeAngle s + round32 (planeSpeed s * deltaTime))\<rparr>;
            l = plane_view s
        in (LookAt (planePos l) (lookTarget l) (up l), s)
      else
        let camX = sin (cameraAngleX s) * cos (cameraAngleY s) * cameraDistance s;
            camY = sin (cameraAngleY s) * cameraDistance s;
            camZ = cos (cameraAngleX s) * cos (cameraAngleY s) * cameraDistance s
        in (LookAt (Vec3 camX camY camZ) (Vec3 0 0 0) (Vec3 0 1 0), s))"

definition getViewPosition :: "camera \<Rightarrow> vec3" where
  "getViewPosition s =
     (if \<not> manualControl s then
        let pathVariation = sin (planeAngle s * 2) * 0.4
        in vscale (normalize_vec (Vec3 (planeAltitude s * cos (planeAngle s))
                                   pathVariation
                                   (planeAltitude s * sin (planeAngle s))))
                  (planeAltitude s)
      else
        Vec3 (sin (cameraAngleX s) * cos (cameraAngleY s) * cameraDistance s)
             (sin (cameraAngleY s) * cameraDistance s)
             (cos (cameraAngleX s) * cos (cameraAngleY s) * cameraDistance s))"

subsection \<open>The render loop\<close>

text \<open>One pass of the loop of \<^verbatim>\<open>main\<close> polls the keyboard, computes the view (advancing
  the orbit in automatic mode) and then the view position for the shader. Between two
  passes \<^verbatim>\<open>glfwPollEvents\<close> delivers cursor, button and scroll callbacks.\<close>

definition render_frame :: "keyboard \<Rightarrow> real \<Rightarrow> camera \<Rightarrow> (view \<times> vec3) \<times> camera" where
  "render_frame pressed deltaTime s =
     (let s = processInput pressed s;
          (view, s) = getViewMatrix deltaTime s;
          viewPosition = getViewPosition s
      in ((view, viewPosition), s))"

datatype event =
    Frame keyboard real
  | CursorPos real real
  | MouseButton mouse_button key_action
  | Scroll real real

fun step :: "camera \<Rightarrow> event \<Rightarrow> camera" where
  "step s (Frame pressed deltaTime) = snd (render_frame pressed deltaTime s)"
| "step s (CursorPos xpos ypos) = mouse_callback xpos ypos s"
| "step s (MouseButton button action) = mouse_button_callback button action s"
| "step s (Scroll xoffset yoffset) = scroll_callback xoffset yoffset s"

definition run :: "camera \<Rightarrow> event list \<Rightarrow> camera" where
  "run s events = foldl step s events"


text \<open>A run in which every frame is spent in manual mode: after the SPACE toggle of its
  \<^verbatim>\<open>processInput\<close>, \<^verbatim>\<open>manualControl\<close> is set.\<close>

fun manual_frames :: "camera \<Rightarrow> event list \<Rightarrow> bool" where
  "manual_frames s [] = True"
| "manual_frames s (Frame pressed deltaTime # rest) =
     (manualControl (processInput pressed s) \<and>
      manual_frames (step s (Frame pressed deltaTime)) rest)"
| "manual_frames s (CursorPos xpos ypos # rest) =
     manual_frames (step s (CursorPos xpos ypos)) rest"
| "manual_frames s (MouseButton button action # rest) =
     manual_frames (step s (MouseButton button action)) rest"
| "manual_frames s (Scroll xoffset yoffset # rest) =
     manual_frames (step s (Scroll xoffset yoffset)) rest"

text \<open>The configured ranges of the adjustable parameters.\<close>

definition in_range :: "camera \<Rightarrow> bool" where
  "in_range s \<longleftrightarrow>
     0 \<le> planeSpeed s \<and> planeSpeed s \<le> 2 \<and>
     1.05 \<le> planeAltitude s \<and> planeAltitude s \<le> 2 \<and>
     - 1.5 \<le> cameraAngleY s \<and> cameraAngleY s \<le> 1.5 \<and>
     1.5 \<le> cameraDistance s \<and> cameraDistance s \<le> 10"

section \<open>Rounding to binary32\<close>

lemma rne_error: "\<bar>real_of_int (rne q) - q\<bar> \<le> 1 / 2"
proof -
  have "of_int \<lfloor>q\<rfloor> \<le> q" "q < of_int \<lfloor>q\<rfloor> + 1" by linarith+
  then show ?thesis by (auto simp: rne_def Let_def)
qed

lemma rne_near: 
  assumes "\<bar>q - real_of_int n\<bar> < 1 / 2"
  shows "rne q = n"
proof -
  have "\<bar>real_of_int (rne q) - q\<bar> \<le> 1 / 2" by (rule rne_error)
  then have "\<bar>real_of_int (rne q) - real_of_int n\<bar> < 1" using assms by linarith
  then have "\<bar>real_of_int (rne q - n)\<bar> < 1" by simp
  then have "\<bar>rne q - n\<bar> < 1" by linarith
  then show ?thesis by simp
qed

lemma rne_of_int: "rne (real_of_int n) = n"
  by (rule rne_near) simp

lemma ulp32_pos: "0 < ulp32 x"
  by (simp add: ulp32_def)

lemma round32_error: "\<bar>round32 x - x\<bar> \<le> ulp32 x / 2"
proof (cases "x = 0")
  case True
  then show ?thesis using ulp32_pos[of x] by (simp add: round32_def)
next
  case False
  let ?u = "ulp32 x"
  have u: "0 < ?u" by (rule ulp32_pos)
  have "\<bar>real_of_int (rne (x / ?u)) - x / ?u\<bar> \<le> 1 / 2" by (rule rne_error)
  then have "\<bar>real_of_int (rne (x / ?u)) - x / ?u\<bar> * ?u \<le> 1 / 2 * ?u"
    using u by (intro mult_right_mono) simp_all
  moreover have "\<bar>real_of_int (rne (x / ?u)) - x / ?u\<bar> * ?u =
                 \<bar>real_of_int (rne (x / ?u)) * ?u - x\<bar>"
  proof -
    have "(real_of_int (rne (x / ?u)) - x / ?u) * ?u = real_of_int (rne (x / ?u)) * ?u - x"
      using u by (simp add: field_simps)
    then have "\<bar>real_of_int (rne (x / ?u)) * ?u - x\<bar> =
               \<bar>real_of_int (rne (x / ?u)) - x / ?u\<bar> * \<bar>?u\<bar>"
      by (simp only: abs_mult[symmetric])
    then show ?thesis using u by simp
  qed
  ultimately show ?thesis using False by (simp add: round32_def)
qed

lemma round32_exact:
  assumes "x / ulp32 x = real_of_int n"
  shows "round32 x = x"
proof (cases "x = 0")
  case True then show ?thesis by (simp add: round32_def)
next
  case False
  have "real_of_int (rne (x / ulp32 x)) * ulp32 x = real_of_int n * ulp32 x"
    by (simp only: assms rne_of_int)
  also have "\<dots> = x" using assms ulp32_pos[of x] by (simp add: field_simps)
  finally show ?thesis using False by (simp add: round32_def)
qed

text \<open>Bounds on the exponent and on the rounding error.\<close>

lemma exponent32_eq:
  assumes "2 powr real_of_int k \<le> \<bar>x\<bar>" "\<bar>x\<bar> < 2 powr real_of_int (k + 1)" "- 126 \<le> k"
  shows "exponent32 x = k"
proof -
  have "0 < \<bar>x\<bar>" using assms(1) powr_gt_zero[of 2 "real_of_int k"] by linarith
  then have "\<lfloor>log 2 \<bar>x\<bar>\<rfloor> = k"
    using assms by (simp add: floor_log_eq_powr_iff)
  then show ?thesis using assms(3) by (simp add: exponent32_def)
qed

lemma exponent32_le:
  assumes "\<bar>x\<bar> < 2 powr real_of_int k" "- 125 \<le> k" "x \<noteq> 0"
  shows "exponent32 x \<le> k - 1"
proof -
  have "log 2 \<bar>x\<bar> < real_of_int k"
    using assms by (simp add: log_less_iff)
  then have "\<lfloor>log 2 \<bar>x\<bar>\<rfloor> < k" by linarith
  then show ?thesis using assms(2) by (simp add: exponent32_def)
qed

lemma ulp32_le:
  assumes "\<bar>x\<bar> < 2 powr real_of_int k" "- 125 \<le> k" "x \<noteq> 0"
  shows "ulp32 x \<le> 2 powr real_of_int (k - 24)"
proof -
  have "exponent32 x - 23 \<le> k - 24" using exponent32_le[OF assms] by simp
  then show ?thesis unfolding ulp32_def by simp
qed

lemma round32_error_below:
  assumes "\<bar>x\<bar> < 2 powr real_of_int k" "- 125 \<le> k"
  shows "\<bar>round32 x - x\<bar> \<le> 2 powr real_of_int (k - 25)"
proof (cases "x = 0")
  case True then show ?thesis by (simp add: round32_def)
next
  case False
  have "\<bar>round32 x - x\<bar> \<le> ulp32 x / 2" by (rule round32_error)
  also have "\<dots> \<le> 2 powr real_of_int (k - 24) / 2"
    using ulp32_le[OF assms False] by simp
  also have "\<dots> = 2 powr real_of_int (k - 25)"
    by (simp add: powr_diff algebra_simps)
  finally show ?thesis .
qed

lemma round32_rel_error:
  assumes "2 powr (- 126) \<le> \<bar>x\<bar>"
  shows "\<bar>round32 x - x\<bar> \<le> \<bar>x\<bar> / 2 ^ 24"
proof -
  have x: "0 < \<bar>x\<bar>" using assms powr_gt_zero[of 2 "- 126"] by linarith
  define e where "e = \<lfloor>log 2 \<bar>x\<bar>\<rfloor>"
  have "2 powr real_of_int e \<le> \<bar>x\<bar>"
    using x floor_log_eq_powr_iff[of "\<bar>x\<bar>" 2 e] by (simp add: e_def)
  moreover have "- 126 \<le> e"
  proof -
    have "real_of_int (- 126) \<le> log 2 \<bar>x\<bar>" using assms x by (simp add: le_log_iff)
    then show ?thesis unfolding e_def by (simp add: le_floor_iff)
  qed
  ultimately have u: "ulp32 x \<le> \<bar>x\<bar> / 2 ^ 23"
    by (simp add: ulp32_def exponent32_def e_def[symmetric] max_def powr_diff)
  have "\<bar>round32 x - x\<bar> \<le> ulp32 x / 2" by (rule round32_error)
  also have "\<dots> \<le> \<bar>x\<bar> / 2 ^ 23 / 2" using u by simp
  finally show ?thesis by simp
qed

lemma round32_near:
  assumes e: "exponent32 x = e"
    and n: "\<bar>x - real_of_int n * 2 powr real_of_int (e - 23)\<bar> < 2 powr real_of_int (e - 23) / 2"
    and x: "x \<noteq> 0"
  shows "round32 x = real_of_int n * 2 powr real_of_int (e - 23)"
proof -
  let ?u = "2 powr real_of_int (e - 23)"
  have u: "ulp32 x = ?u" by (simp add: ulp32_def e)
  have up: "0 < ?u" by simp
  have "(x / ?u - real_of_int n) * ?u = x - real_of_int n * ?u"
    using up by (simp add: field_simps)
  then have "\<bar>x / ?u - real_of_int n\<bar> * \<bar>?u\<bar> = \<bar>x - real_of_int n * ?u\<bar>"
    by (simp only: abs_mult[symmetric])
  then have "\<bar>x / ?u - real_of_int n\<bar> * ?u < 1 / 2 * ?u"
    using n up by simp
  then have "\<bar>x / ?u - real_of_int n\<bar> < 1 / 2"
    using up by (simp only: mult_less_cancel_right_pos)
  then have "rne (x / ?u) = n" by (rule rne_near)
  then show ?thesis using x by (simp add: round32_def u)
qed

lemma round32_absorb_million:
  assumes "\<bar>y\<bar> < 1 / 32"
  shows "round32 (1000000 + y) = 1000000"
proof -
  let ?x = "1000000 + y"
  have b: "2 powr real_of_int 19 \<le> \<bar>?x\<bar>" "\<bar>?x\<bar> < 2 powr real_of_int (19 + 1)"
    using assms by simp_all
  have e: "exponent32 ?x = 19" by (rule exponent32_eq[OF b]) simp
  have p: "2 powr real_of_int (19 - 23) = 1 / 16" by (simp add: powr_minus_divide)
  have "\<bar>?x - real_of_int 16000000 * (1 / 16)\<bar> < (1 / 16) / 2"
    using assms by simp
  then have "\<bar>?x - real_of_int 16000000 * 2 powr real_of_int (19 - 23)\<bar>
      < 2 powr real_of_int (19 - 23) / 2"
    by (simp only: p)
  moreover have "?x \<noteq> 0" using assms by linarith
  ultimately have "round32 ?x = real_of_int 16000000 * 2 powr real_of_int (19 - 23)"
    by (rule round32_near[OF e])
  then show ?thesis unfolding p by simp
qed

lemma round32_at_two_18:
  assumes "262144 \<le> v" "v < 262144 + 1 / 64"
  shows "round32 v = 262144"
proof -
  have b: "2 powr real_of_int 18 \<le> \<bar>v\<bar>" "\<bar>v\<bar> < 2 powr real_of_int (18 + 1)"
    using assms by simp_all
  have e: "exponent32 v = 18" by (rule exponent32_eq[OF b]) simp
  have p: "2 powr real_of_int (18 - 23) = 1 / 32" by (simp add: powr_minus_divide)
  have "\<bar>v - real_of_int 8388608 * (1 / 32)\<bar> < (1 / 32) / 2"
    using assms by simp
  then have "\<bar>v - real_of_int 8388608 * 2 powr real_of_int (18 - 23)\<bar>
      < 2 powr real_of_int (18 - 23) / 2"
    by (simp only: p)
  moreover have "v \<noteq> 0" using assms by linarith
  ultimately have "round32 v = real_of_int 8388608 * 2 powr real_of_int (18 - 23)"
    by (rule round32_near[OF e])
  then show ?thesis unfolding p by simp
qed

lemma round32_of_int:
  assumes "\<bar>j\<bar> \<le> 16777216"
  shows "round32 (real_of_int j) = real_of_int j"
proof (cases "j = 0")
  case True then show ?thesis by (simp add: round32_def)
next
  case False
  define x where "x = real_of_int j"
  have x1: "1 \<le> \<bar>x\<bar>" using False unfolding x_def by (simp flip: of_int_abs)
  have x0: "0 < \<bar>x\<bar>" using x1 by linarith
  define e where "e = \<lfloor>log 2 \<bar>x\<bar>\<rfloor>"
  have lo: "2 powr real_of_int e \<le> \<bar>x\<bar>" and hi: "\<bar>x\<bar> < 2 powr real_of_int (e + 1)"
    using x0 floor_log_eq_powr_iff[of "\<bar>x\<bar>" 2 e] by (simp_all add: e_def)
  have e0: "0 \<le> e"
  proof -
    have "0 \<le> log 2 \<bar>x\<bar>" using x1 by simp
    then show ?thesis by (simp add: e_def)
  qed
  have e24: "e \<le> 24"
  proof -
    have "\<bar>x\<bar> \<le> 16777216" using assms unfolding x_def by (simp flip: of_int_abs)
    then have "\<bar>x\<bar> < 2 powr real_of_int 25" by simp
    then have "log 2 \<bar>x\<bar> < real_of_int 25" using x0 by (simp only: log_less_iff)
    then show ?thesis unfolding e_def by linarith
  qed
  have ex: "exponent32 x = e" using e0 by (simp add: exponent32_def e_def)
  have u: "ulp32 x = 2 powr real_of_int (e - 23)" by (simp add: ulp32_def ex)
  show ?thesis
  proof (cases "e \<le> 23")
    case True
    have "2 powr real_of_int (e - 23) * 2 powr real_of_int (23 - e) = 1"
      by (simp flip: powr_add)
    moreover have "2 powr real_of_int (23 - e) = 2 ^ nat (23 - e)"
      using True powr_real_of_int[of 2 "23 - e"] by simp
    ultimately have "2 powr real_of_int (e - 23) * 2 ^ nat (23 - e) = 1" by simp
    then have "2 powr real_of_int (e - 23) = 1 / 2 ^ nat (23 - e)"
      by (simp add: field_simps)
    then have "ulp32 x = 1 / 2 ^ nat (23 - e)" by (simp only: u)
    then have "x / ulp32 x = x * 2 ^ nat (23 - e)" by simp
    then have "x / ulp32 x = real_of_int (j * 2 ^ nat (23 - e))"
      by (simp add: x_def)
    then show ?thesis unfolding x_def[symmetric] by (rule round32_exact)
  next
    case False
    then have e: "e = 24" using e24 by simp
    have "2 powr real_of_int 24 \<le> \<bar>x\<bar>" using lo by (simp only: e)
    then have "16777216 \<le> \<bar>x\<bar>" by simp
    then have "16777216 \<le> \<bar>j\<bar>" unfolding x_def by (simp flip: of_int_abs)
    then have j: "j = 16777216 \<or> j = - 16777216" using assms by linarith
    have "ulp32 x = 2" by (simp add: u e)
    then have "x / ulp32 x = x / 2" by simp
    then have "x / ulp32 x = real_of_int (j div 2)"
      using j by (auto simp add: x_def)
    then show ?thesis unfolding x_def[symmetric] by (rule round32_exact)
  qed
qed


section \<open>Properties of the sphere mesh generator\<close>

subsection \<open>The loops when no step fails\<close>

lemma and_then_simps [simp]:
  "and_then (Inr x) f = f x" "and_then (Inl e) f = Inl e"
  by (simp_all add: and_then_def)

lemma push_back_ok: "length v < capacity \<Longrightarrow> push_back capacity v x = Inr (v @ [x])"
  by (simp add: push_back_def)

lemma push_back_full: "capacity \<le> length v \<Longrightarrow> push_back capacity v x = Inl BadAlloc"
  by (simp add: push_back_def)

lemma int_add_ok: "INT_MIN \<le> a + b \<Longrightarrow> a + b \<le> INT_MAX \<Longrightarrow> int_add a b = Inr (a + b)"
  by (simp add: int_add_def)

lemma int_mul_ok: "INT_MIN \<le> a * b \<Longrightarrow> a * b \<le> INT_MAX \<Longrightarrow> int_mul a b = Inr (a * b)"
  by (simp add: int_mul_def)

lemma int_succ_ok: "0 \<le> a \<Longrightarrow> a < INT_MAX \<Longrightarrow> int_add a 1 = Inr (a + 1)"
  by (simp add: int_add_def INT_MIN_def)

lemma int_succ_overflow: "int_add INT_MAX 1 = Inl SignedOverflow"
  by (simp add: int_add_def INT_MAX_def INT_MIN_def)

lemma to_unsigned_id: "0 \<le> k \<Longrightarrow> k \<le> INT_MAX \<Longrightarrow> to_unsigned k = k"
  by (simp add: to_unsigned_def INT_MAX_def)

lemma vertex_body:
  assumes "length vertices + 6 \<le> capacity"
  shows "(let sectorAngle = float_of_int j * sectorStep;
               x = xy * cos sectorAngle;
               y = xy * sin sectorAngle
           in and_then (push_back capacity vertices (Finite x)) (\<lambda>vertices.
              and_then (push_back capacity vertices (Finite y)) (\<lambda>vertices.
              and_then (push_back capacity vertices (Finite z)) (\<lambda>vertices.
              let nx = float_mul x lengthInv;
                  ny = float_mul y lengthInv;
                  nz = float_mul z lengthInv
              in and_then (push_back capacity vertices nx) (\<lambda>vertices.
                 and_then (push_back capacity vertices ny) (\<lambda>vertices.
                 push_back capacity vertices nz))))))
         = Inr (vertices @ vertex6 sectorStep lengthInv xy z j)"
  using assms by (simp add: Let_def push_back_ok vertex6_def)

lemma vertex_sector_loop_eq:
  assumes "sectors < INT_MAX" "0 \<le> j" "length vertices + 6 * nat (sectors + 1 - j) \<le> capacity"
  shows "vertex_sector_loop capacity sectors sectorStep lengthInv xy z j vertices =
     Inr (vertices @ concat (map (vertex6 sectorStep lengthInv xy z) [j..sectors]))"
  using assms
proof (induction capacity sectors sectorStep lengthInv xy z j vertices rule: vertex_sector_loop.induct)
  case (1 capacity sectors sectorStep lengthInv xy z j vertices)
  show ?case
  proof (cases "j \<le> sectors")
    case True
    then have u: "[j..sectors] = j # [j + 1..sectors]" by (rule upto_rec1)
    have n: "nat (sectors + 1 - j) = Suc (nat (sectors + 1 - (j + 1)))"
      using True by simp
    have room: "length vertices + 6 \<le> capacity" using "1.prems"(3) n by simp
    note body = vertex_body[OF room, of j sectorStep xy z lengthInv]
    have add: "int_add j 1 = Inr (j + 1)"
      using True "1.prems" by (intro int_succ_ok) simp_all
    have room': "length (vertices @ vertex6 sectorStep lengthInv xy z j)
                   + 6 * nat (sectors + 1 - (j + 1)) \<le> capacity"
      using "1.prems"(3) n by (simp add: vertex6_def)
    have j': "0 \<le> j + 1" using "1.prems"(2) by simp
    have "vertex_sector_loop capacity sectors sectorStep lengthInv xy z j vertices =
          vertex_sector_loop capacity sectors sectorStep lengthInv xy z (j + 1)
            (vertices @ vertex6 sectorStep lengthInv xy z j)"
      by (subst vertex_sector_loop.simps) (simp only: True if_True body add sum.case)
    also have "\<dots> = Inr ((vertices @ vertex6 sectorStep lengthInv xy z j) @
          concat (map (vertex6 sectorStep lengthInv xy z) [j + 1..sectors]))"
      by (rule "1.IH"[OF True body add "1.prems"(1) j' room'])
    finally show ?thesis by (simp add: u)
  next
    case False
    then show ?thesis by (subst vertex_sector_loop.simps) simp
  qed
qed

lemma length_vertex6: "length (vertex6 sectorStep lengthInv xy z j) = 6"
  by (simp add: vertex6_def)

lemma length_concat_blocks:
  "(\<And>x. x \<in> set xss \<Longrightarrow> length x = n) \<Longrightarrow> length (concat xss) = length xss * n"
  by (induction xss) auto

lemma length_vertex_row:
  "length (vertex_row radius sectors sectorStep stackStep lengthInv i) = nat (sectors + 1) * 6"
  unfolding vertex_row_def
  by (subst length_concat_blocks[where n = 6]) (auto simp: length_vertex6)

lemma vertex_stack_loop_eq:
  assumes "sectors < INT_MAX" "stacks < INT_MAX" "0 \<le> i"
    "length vertices + nat (stacks + 1 - i) * (nat (sectors + 1) * 6) \<le> capacity"
  shows "vertex_stack_loop capacity radius sectors stacks sectorStep stackStep lengthInv i vertices =
     Inr (vertices @
          concat (map (vertex_row radius sectors sectorStep stackStep lengthInv) [i..stacks]))"
  using assms
proof (induction capacity radius sectors stacks sectorStep stackStep lengthInv i vertices
    rule: vertex_stack_loop.induct)
  case (1 capacity radius sectors stacks sectorStep stackStep lengthInv i vertices)
  show ?case
  proof (cases "i \<le> stacks")
    case True
    then have u: "[i..stacks] = i # [i + 1..stacks]" by (rule upto_rec1)
    have n: "nat (stacks + 1 - i) = Suc (nat (stacks + 1 - (i + 1)))"
      using True by simp
    have room: "length vertices + 6 * nat (sectors + 1 - 0) \<le> capacity"
      using "1.prems"(4) n by simp
    have row: "(let stackAngle = pi / 2 - float_of_int i * stackStep;
               xy = radius * cos stackAngle;
               z = radius * sin stackAngle
           in vertex_sector_loop capacity sectors sectorStep lengthInv xy z 0 vertices)
               = Inr (vertices @ vertex_row radius sectors sectorStep stackStep lengthInv i)"
      unfolding Let_def vertex_row_def
      by (rule vertex_sector_loop_eq[OF "1.prems"(1) order_refl room])
    have add: "int_add i 1 = Inr (i + 1)"
      using True "1.prems" by (intro int_succ_ok) simp_all
    have room': "length (vertices @ vertex_row radius sectors sectorStep stackStep lengthInv i)
                   + nat (stacks + 1 - (i + 1)) * (nat (sectors + 1) * 6) \<le> capacity"
      using "1.prems"(4) n by (simp add: length_vertex_row)
    have i': "0 \<le> i + 1" using "1.prems"(3) by simp
    have "vertex_stack_loop capacity radius sectors stacks sectorStep stackStep lengthInv i vertices =
          vertex_stack_loop capacity radius sectors stacks sectorStep stackStep lengthInv (i + 1)
            (vertices @ vertex_row radius sectors sectorStep stackStep lengthInv i)"
      by (subst vertex_stack_loop.simps) (simp only: True if_True row add sum.case)
    also have "\<dots> = Inr ((vertices @ vertex_row radius sectors sectorStep stackStep lengthInv i) @
          concat (map (vertex_row radius sectors sectorStep stackStep lengthInv) [i + 1..stacks]))"
      by (rule "1.IH"[OF True row add "1.prems"(1,2) i' room'])
    finally show ?thesis by (simp add: u)
  next
    case False
    then show ?thesis by (subst vertex_stack_loop.simps) simp
  qed
qed

lemma length_index_cell:
  "length (index_cell sectors stacks i j) =
     (if i \<noteq> 0 then 3 else 0) + (if i \<noteq> stacks - 1 then 3 else 0)"
  by (simp add: index_cell_def)

lemma index_body:
  assumes k1: "k1 = i * (sectors + 1) + j" and k2: "k2 = k1 + sectors + 1"
    and lo: "0 \<le> k1" "0 \<le> sectors" and hi: "k2 < INT_MAX"
    and room: "length indices + length (index_cell sectors stacks i j) \<le> capacity"
  shows "and_then
            (if i \<noteq> 0 then
               and_then (push_back capacity indices (to_unsigned k1)) (\<lambda>indices.
               and_then (push_back capacity indices (to_unsigned k2)) (\<lambda>indices.
               and_then (int_add k1 1) (\<lambda>k.
               push_back capacity indices (to_unsigned k))))
             else Inr indices)
            (\<lambda>indices.
               if i \<noteq> stacks - 1 then
                 and_then (int_add k1 1) (\<lambda>k.
                 and_then (push_back capacity indices (to_unsigned k)) (\<lambda>indices.
                 and_then (push_back capacity indices (to_unsigned k2)) (\<lambda>indices.
                 and_then (int_add k2 1) (\<lambda>k.
                 push_back capacity indices (to_unsigned k)))))
               else Inr indices)
         = Inr (indices @ index_cell sectors stacks i j)"
proof -
  have a1: "int_add k1 1 = Inr (k1 + 1)" using lo hi k2 by (intro int_succ_ok) simp_all
  have a2: "int_add k2 1 = Inr (k2 + 1)" using lo hi k2 by (intro int_succ_ok) simp_all
  have u: "to_unsigned k1 = k1" "to_unsigned k2 = k2" "to_unsigned (k1 + 1) = k1 + 1"
    "to_unsigned (k2 + 1) = k2 + 1"
    using lo hi k2 by (simp_all add: to_unsigned_id)
  have c: "index_cell sectors stacks i j =
           (if i \<noteq> 0 then [k1, k2, k1 + 1] else []) @
           (if i \<noteq> stacks - 1 then [k1 + 1, k2, k2 + 1] else [])"
    by (simp add: index_cell_def k1 k2)
  show ?thesis
    using room unfolding length_index_cell c
    by (cases "i = 0"; cases "i = stacks - 1") (simp_all add: a1 a2 u push_back_def)
qed

lemma index_sector_loop_eq:
  assumes "k1 = i * (sectors + 1) + j" "k2 = k1 + sectors + 1" "0 \<le> k1" "0 \<le> j"
    "k2 + (sectors - j) \<le> INT_MAX"
    "length indices + length (concat (map (index_cell sectors stacks i) [j..sectors - 1]))
       \<le> capacity"
  shows "index_sector_loop capacity sectors stacks i j k1 k2 indices =
     Inr (indices @ concat (map (index_cell sectors stacks i) [j..sectors - 1]))"
  using assms
proof (induction capacity sectors stacks i j k1 k2 indices rule: index_sector_loop.induct)
  case (1 capacity sectors stacks i j k1 k2 indices)
  show ?case
  proof (cases "j < sectors")
    case True
    then have u: "[j..sectors - 1] = j # [j + 1..sectors - 1]" by (simp add: upto_rec1)
    have s0: "0 \<le> sectors" using True "1.prems"(4) by simp
    have hi: "k2 < INT_MAX" using True "1.prems"(5) by simp
    have room: "length indices + length (index_cell sectors stacks i j) \<le> capacity"
      using "1.prems"(6) unfolding u by simp
    note body = index_body[OF "1.prems"(1,2,3) s0 hi room]
    have aj: "int_add j 1 = Inr (j + 1)"
      using True "1.prems"(4) hi "1.prems"(2,3) by (intro int_succ_ok) simp_all
    have a1: "int_add k1 1 = Inr (k1 + 1)"
      using "1.prems"(2,3) hi s0 by (intro int_succ_ok) simp_all
    have a2: "int_add k2 1 = Inr (k2 + 1)"
      using "1.prems"(2,3) hi s0 by (intro int_succ_ok) simp_all
    have p1: "k1 + 1 = i * (sectors + 1) + (j + 1)" using "1.prems"(1) by simp
    have p2: "k2 + 1 = k1 + 1 + sectors + 1" using "1.prems"(2) by simp
    have p3: "0 \<le> k1 + 1" "0 \<le> j + 1" using "1.prems"(3,4) by simp_all
    have p5: "k2 + 1 + (sectors - (j + 1)) \<le> INT_MAX" using "1.prems"(5) by simp
    have p6: "length (indices @ index_cell sectors stacks i j) +
              length (concat (map (index_cell sectors stacks i) [j + 1..sectors - 1])) \<le> capacity"
      using "1.prems"(6) unfolding u by simp
    have "index_sector_loop capacity sectors stacks i j k1 k2 indices =
          index_sector_loop capacity sectors stacks i (j + 1) (k1 + 1) (k2 + 1)
            (indices @ index_cell sectors stacks i j)"
      by (subst index_sector_loop.simps, subst body) (simp only: True if_True aj a1 a2 sum.case)
    also have "\<dots> = Inr ((indices @ index_cell sectors stacks i j) @
                 concat (map (index_cell sectors stacks i) [j + 1..sectors - 1]))"
      by (rule "1.IH"[OF True body aj a1 a2 p1 p2 p3 p5 p6])
    finally show ?thesis by (simp add: u)
  next
    case False
    then show ?thesis by (subst index_sector_loop.simps) simp
  qed
qed

lemma index_stack_loop_eq:
  assumes "0 \<le> i" "0 \<le> sectors" "(stacks + 1) * (sectors + 1) \<le> 2147483648"
    "length indices + length (concat (map (index_row sectors stacks) [i..stacks - 1])) \<le> capacity"
  shows "index_stack_loop capacity sectors stacks i indices =
     Inr (indices @ concat (map (index_row sectors stacks) [i..stacks - 1]))"
  using assms
proof (induction capacity sectors stacks i indices rule: index_stack_loop.induct)
  case (1 capacity sectors stacks i indices)
  show ?case
  proof (cases "i < stacks")
    case True
    then have u: "[i..stacks - 1] = i # [i + 1..stacks - 1]" by (simp add: upto_rec1)
    let ?w = "sectors + 1"
    have w1: "1 \<le> ?w" using "1.prems"(2) by simp
    have iw: "(i + 2) * ?w \<le> (stacks + 1) * ?w"
      using True w1 by (intro mult_right_mono) simp_all
    have iw0: "0 \<le> i * ?w" using "1.prems"(1) w1 by simp
    have top: "i * ?w + 2 * ?w \<le> 2147483648"
      using iw "1.prems"(3) by (simp add: algebra_simps)
    have aw: "int_add sectors 1 = Inr ?w"
      using top iw0 "1.prems"(2) by (intro int_add_ok) (simp_all add: INT_MAX_def INT_MIN_def)
    have ak1: "int_mul i ?w = Inr (i * ?w)"
      using top iw0 "1.prems"(2) by (intro int_mul_ok) (simp_all add: INT_MAX_def INT_MIN_def)
    have ak: "int_add (i * ?w) sectors = Inr (i * ?w + sectors)"
      using top iw0 "1.prems"(2) by (intro int_add_ok) (simp_all add: INT_MAX_def INT_MIN_def)
    have ak2: "int_add (i * ?w + sectors) 1 = Inr (i * ?w + sectors + 1)"
      using top iw0 "1.prems"(2) by (intro int_add_ok) (simp_all add: INT_MAX_def INT_MIN_def)
    have room: "length indices +
                length (concat (map (index_cell sectors stacks i) [0..sectors - 1])) \<le> capacity"
      using "1.prems"(4) unfolding u by (simp add: index_row_def)
    have "index_sector_loop capacity sectors stacks i 0 (i * ?w) (i * ?w + sectors + 1) indices =
          Inr (indices @ concat (map (index_cell sectors stacks i) [0..sectors - 1]))"
      using top iw0 "1.prems"(2) room
      by (intro index_sector_loop_eq) (simp_all add: INT_MAX_def)
    then have row: "and_then (int_add sectors 1) (\<lambda>w.
          and_then (int_mul i w) (\<lambda>k1.
          and_then (int_add k1 sectors) (\<lambda>k.
          and_then (int_add k 1) (\<lambda>k2.
          index_sector_loop capacity sectors stacks i 0 k1 k2 indices))))
          = Inr (indices @ index_row sectors stacks i)"
      by (simp add: aw ak1 ak ak2 index_row_def)
    have ai: "int_add i 1 = Inr (i + 1)"
    proof -
      have "(stacks + 1) * 1 \<le> (stacks + 1) * ?w"
        using True "1.prems"(1) w1 by (intro mult_left_mono) simp_all
      then have "i + 1 < 2147483648" using True "1.prems"(3) by simp
      then show ?thesis
        using "1.prems"(1) by (intro int_add_ok) (simp_all add: INT_MAX_def INT_MIN_def)
    qed
    have i': "0 \<le> i + 1" using "1.prems"(1) by simp
    have room': "length (indices @ index_row sectors stacks i) +
                 length (concat (map (index_row sectors stacks) [i + 1..stacks - 1])) \<le> capacity"
      using "1.prems"(4) unfolding u by simp
    have "index_stack_loop capacity sectors stacks i indices =
          index_stack_loop capacity sectors stacks (i + 1) (indices @ index_row sectors stacks i)"
      by (subst index_stack_loop.simps) (simp only: True if_True row ai sum.case)
    also have "\<dots> = Inr ((indices @ index_row sectors stacks i) @
          concat (map (index_row sectors stacks) [i + 1..stacks - 1]))"
      by (rule "1.IH"[OF True row ai i' "1.prems"(2,3) room'])
    finally show ?thesis by (simp add: u)
  next
    case False
    then show ?thesis by (subst index_stack_loop.simps) simp
  qed
qed

lemma length_sphere_vertices:
  "length (sphere_vertices radius sectors stacks) = nat (stacks + 1) * (nat (sectors + 1) * 6)"
  unfolding sphere_vertices_def
  by (subst length_concat_blocks[where n = "nat (sectors + 1) * 6"]) (auto simp: length_vertex_row)

text \<open>The call returns, and appends the closed forms, when no \<^verbatim>\<open>int\<close> overflows and the
  vectors can grow as far as needed.\<close>

lemma generateSphere_eq:
  assumes "1 \<le> sectors" "1 \<le> stacks" "(stacks + 1) * (sectors + 1) \<le> 2147483648"
    "length vertices + length (sphere_vertices radius sectors stacks) \<le> capacity"
    "length indices + length (sphere_indices sectors stacks) \<le> capacity"
  shows "generateSphere capacity radius sectors stacks vertices indices =
     Inr (vertices @ sphere_vertices radius sectors stacks,
          indices @ sphere_indices sectors stacks)"
proof -
  have "2 * (sectors + 1) \<le> (stacks + 1) * (sectors + 1)"
    using assms(1,2) by (intro mult_right_mono) simp_all
  then have s: "sectors < INT_MAX" using assms(3) by (simp add: INT_MAX_def)
  have "(stacks + 1) * 2 \<le> (stacks + 1) * (sectors + 1)"
    using assms(1,2) by (intro mult_left_mono) simp_all
  then have t: "stacks < INT_MAX" using assms(3) by (simp add: INT_MAX_def)
  have v: "vertex_stack_loop capacity radius sectors stacks (2 * pi / real_of_int sectors)
             (pi / real_of_int stacks) (float_div 1 radius) 0 vertices =
           Inr (vertices @ sphere_vertices radius sectors stacks)"
    unfolding sphere_vertices_def
    using assms(4) by (intro vertex_stack_loop_eq[OF s t]) (simp_all add: length_sphere_vertices)
  have i: "index_stack_loop capacity sectors stacks 0 indices =
           Inr (indices @ sphere_indices sectors stacks)"
    unfolding sphere_indices_def
    using assms(1,3,5) by (intro index_stack_loop_eq) (simp_all add: sphere_indices_def)
  show ?thesis by (simp add: generateSphere_def Let_def v i)
qed

subsection \<open>The length of the index buffer\<close>

lemma length_index_row:
  "length (index_row sectors stacks i) =
     nat sectors * ((if i \<noteq> 0 then 3 else 0) + (if i \<noteq> stacks - 1 then 3 else 0))"
proof -
  let ?n = "(if i \<noteq> 0 then 3 else 0) + (if i \<noteq> stacks - 1 then 3 else (0::nat))"
  have "\<And>x. x \<in> set (map (index_cell sectors stacks i) [0..sectors - 1]) \<Longrightarrow> length x = ?n"
    by (auto simp only: set_map length_index_cell)
  then have "length (concat (map (index_cell sectors stacks i) [0..sectors - 1])) =
             length (map (index_cell sectors stacks i) [0..sectors - 1]) * ?n"
    by (rule length_concat_blocks)
  then show ?thesis by (simp add: index_row_def)
qed

lemma length_concat_rows:
  "(\<And>i. i \<in> set is \<Longrightarrow> length (f i) = n) \<Longrightarrow> length (concat (map f is)) = length is * n"
  by (rule trans[OF length_concat_blocks[where n = n]]) auto

lemma length_sphere_indices:
  assumes "0 \<le> sectors" "2 \<le> stacks"
  shows "int (length (sphere_indices sectors stacks)) = 2 * sectors * (stacks - 1) * 3"
proof -
  have split: "[0..stacks - 1] = [0] @ [1..stacks - 2] @ [stacks - 1]"
  proof -
    have "[0..stacks - 1] = 0 # [1..stacks - 1]" using assms by (simp add: upto_rec1)
    moreover have "[1..stacks - 1] = [1..stacks - 2] @ [stacks - 1]"
      using assms upto_rec2[of 1 "stacks - 1"] by simp
    ultimately show ?thesis by simp
  qed
  have mid: "length (concat (map (index_row sectors stacks) [1..stacks - 2])) =
             length [1..stacks - 2] * (nat sectors * 6)"
    by (rule length_concat_rows) (auto simp: length_index_row)
  have first: "length (index_row sectors stacks 0) = nat sectors * 3"
    using assms by (simp add: length_index_row)
  have last: "length (index_row sectors stacks (stacks - 1)) = nat sectors * 3"
    using assms by (simp add: length_index_row)
  have "length (sphere_indices sectors stacks) =
        nat sectors * 3 + nat (stacks - 2) * (nat sectors * 6) + nat sectors * 3"
    unfolding sphere_indices_def split using mid first last by simp
  also have "int \<dots> = 2 * sectors * (stacks - 1) * 3"
    using assms by (simp add: algebra_simps)
  finally show ?thesis .
qed

lemma length_sphere_indices_one:
  "length (sphere_indices sectors 1) = 0"
  by (simp add: sphere_indices_def length_index_row)

lemma length_sphere_indices_pos:
  assumes "0 \<le> sectors" "1 \<le> stacks"
  shows "length (sphere_indices sectors stacks) = nat (6 * sectors * (stacks - 1))"
proof (cases "stacks = 1")
  case True
  then show ?thesis by (simp add: length_sphere_indices_one)
next
  case False
  then have "int (length (sphere_indices sectors stacks)) = 2 * sectors * (stacks - 1) * 3"
    using assms by (intro length_sphere_indices) simp_all
  then show ?thesis by linarith
qed

lemma length_sphere_vertices_pos:
  assumes "0 \<le> sectors" "0 \<le> stacks"
  shows "length (sphere_vertices radius sectors stacks) = 6 * nat ((stacks + 1) * (sectors + 1))"
  using assms by (simp add: length_sphere_vertices nat_mult_distrib)

text \<open>The result of a call whose counts are positive and small enough and whose vectors
  can grow by the number of elements appended.\<close>

lemma generateSphere_result:
  assumes "1 \<le> sectors" "1 \<le> stacks" "(stacks + 1) * (sectors + 1) \<le> 2147483648"
    "length vertices + 6 * nat ((stacks + 1) * (sectors + 1)) \<le> capacity"
    "length indices + nat (6 * sectors * (stacks - 1)) \<le> capacity"
  shows "generateSphere capacity radius sectors stacks vertices indices =
     Inr (vertices @ sphere_vertices radius sectors stacks,
          indices @ sphere_indices sectors stacks)"
  using assms
  by (intro generateSphere_eq) (simp_all add: length_sphere_vertices_pos length_sphere_indices_pos)

lemma returns_Inr: "returns (Inr x)"
  by (simp add: returns_def)

lemma vertices_of_Inr: "vertices_of (Inr (vs, ixs)) = vs"
  by (simp add: vertices_of_def)

lemma indices_of_Inr: "indices_of (Inr (vs, ixs)) = ixs"
  by (simp add: indices_of_def)

subsection \<open>The vertex buffer\<close>

lemma nth_concat_blocks:
  "(\<And>x. x \<in> set xss \<Longrightarrow> length x = n) \<Longrightarrow> k < length xss \<Longrightarrow> m < n \<Longrightarrow>
     concat xss ! (k * n + m) = xss ! k ! m"
proof (induction xss arbitrary: k)
  case Nil
  then show ?case by simp
next
  case (Cons x xss)
  have lx: "length x = n" using Cons.prems(1) by simp
  show ?case
  proof (cases k)
    case 0
    then show ?thesis using lx Cons.prems(3) by (simp add: nth_append)
  next
    case (Suc k')
    have "concat (x # xss) ! (k * n + m) = concat xss ! (k' * n + m)"
      using Suc lx by (simp add: nth_append)
    also have "\<dots> = xss ! k' ! m"
      using Cons.IH[of k'] Cons.prems Suc by simp
    finally show ?thesis using Suc by simp
  qed
qed

lemma nth_vertex_row:
  assumes "0 \<le> j" "j \<le> sectors" "m < 6"
  shows "vertex_row radius sectors sectorStep stackStep lengthInv i ! (nat j * 6 + m) =
         vertex6 sectorStep lengthInv (radius * cos (pi / 2 - float_of_int i * stackStep))
                    (radius * sin (pi / 2 - float_of_int i * stackStep)) j ! m"
proof -
  have "nat j < length [0..sectors]" using assms by simp
  moreover have "[0..sectors] ! nat j = j" using assms by (simp add: nth_upto)
  ultimately show ?thesis
    unfolding vertex_row_def
    using assms(3)
    by (subst nth_concat_blocks[where n = 6]) (auto simp: length_vertex6)
qed

lemma nth_sphere_vertices:
  assumes "0 \<le> i" "i \<le> stacks" "0 \<le> j" "j \<le> sectors" "m < 6"
  shows "sphere_vertices radius sectors stacks ! (6 * nat (i * (sectors + 1) + j) + m) =
         vertex6 (2 * pi / real_of_int sectors) (float_div 1 radius)
            (radius * cos (pi / 2 - float_of_int i * (pi / real_of_int stacks)))
            (radius * sin (pi / 2 - float_of_int i * (pi / real_of_int stacks))) j ! m"
proof -
  have idx: "6 * nat (i * (sectors + 1) + j) + m = nat i * (nat (sectors + 1) * 6) + (nat j * 6 + m)"
    using assms by (simp add: nat_add_distrib nat_mult_distrib algebra_simps)
  have lt: "nat j * 6 + m < nat (sectors + 1) * 6" using assms by (simp add: nat_add_distrib)
  have "nat i < length [0..stacks]" using assms by simp
  moreover have "[0..stacks] ! nat i = i" using assms by (simp add: nth_upto)
  ultimately have "sphere_vertices radius sectors stacks ! (nat i * (nat (sectors + 1) * 6) + (nat j * 6 + m))
      = vertex_row radius sectors (2 * pi / real_of_int sectors) (pi / real_of_int stacks)
          (float_div 1 radius) i ! (nat j * 6 + m)"
    unfolding sphere_vertices_def using lt
    by (subst nth_concat_blocks[where n = "nat (sectors + 1) * 6"]) (auto simp: length_vertex_row)
  then show ?thesis using assms by (simp add: idx nth_vertex_row)
qed

lemma vlength_sphere_point:
  "vlength (Vec3 (r * cos p * cos t) (r * cos p * sin t) (r * sin p)) = \<bar>r\<bar>"
proof -
  have "(r * cos p * cos t)\<^sup>2 + (r * cos p * sin t)\<^sup>2 + (r * sin p)\<^sup>2
       = r\<^sup>2 * ((cos p)\<^sup>2 * ((cos t)\<^sup>2 + (sin t)\<^sup>2) + (sin p)\<^sup>2)"
    by (simp only: power_mult_distrib distrib_left mult.assoc)
  also have "\<dots> = r\<^sup>2"
    by (simp only: sin_cos_squared_add2 mult_1_right)
  finally have "dot (Vec3 (r * cos p * cos t) (r * cos p * sin t) (r * sin p))
                    (Vec3 (r * cos p * cos t) (r * cos p * sin t) (r * sin p)) = r\<^sup>2"
    by (simp only: dot_def vec3.sel power2_eq_square)
  then show ?thesis by (simp only: vlength_def real_sqrt_abs)
qed

lemma vertex6_nth:
  "vertex6 sectorStep lengthInv xy z j ! 0 = Finite (xy * cos (float_of_int j * sectorStep))"
  "vertex6 sectorStep lengthInv xy z j ! 1 = Finite (xy * sin (float_of_int j * sectorStep))"
  "vertex6 sectorStep lengthInv xy z j ! 2 = Finite z"
  "vertex6 sectorStep lengthInv xy z j ! 3 =
     float_mul (xy * cos (float_of_int j * sectorStep)) lengthInv"
  "vertex6 sectorStep lengthInv xy z j ! 4 =
     float_mul (xy * sin (float_of_int j * sectorStep)) lengthInv"
  "vertex6 sectorStep lengthInv xy z j ! 5 = float_mul z lengthInv"
  by (simp_all add: vertex6_def)

lemma vertex_position_sphere:
  assumes "0 \<le> i" "i \<le> stacks" "0 \<le> j" "j \<le> sectors"
  shows "vertex_position (sphere_vertices radius sectors stacks) (nat (i * (sectors + 1) + j)) =
         Some (sphere_point radius (pi / 2 - float_of_int i * (pi / real_of_int stacks))
                 (float_of_int j * (2 * pi / real_of_int sectors)))"
proof -
  have m: "(0::nat) < 6" "(1::nat) < 6" "(2::nat) < 6" by simp_all
  show ?thesis
    unfolding vertex_position_def
      nth_sphere_vertices[OF assms m(1), of radius, unfolded add_0_right]
      nth_sphere_vertices[OF assms m(2), of radius]
      nth_sphere_vertices[OF assms m(3), of radius]
      vertex6_nth
    by (simp add: finite_vec3_def sphere_point_def)
qed

text \<open>The quotient \<^verbatim>\<open>1.0f / radius\<close> is finite for a radius that is not too small, and so
  are the products with it, which are the components of a unit vector.\<close>

lemma overflow_threshold_gt_one: "1 < overflow_threshold"
  by (simp add: overflow_threshold_def)

lemma overflow32_finite: "\<bar>x\<bar> < overflow_threshold \<Longrightarrow> overflow32 x = Finite x"
  by (auto simp: overflow32_def)

lemma float_div_finite:
  assumes "0 < radius" "1 / radius < overflow_threshold"
  shows "float_div 1 radius = Finite (1 / radius)"
proof -
  have "0 < 1 / radius" using assms(1) by simp
  then have "\<bar>1 / radius\<bar> < overflow_threshold" using assms(2) by linarith
  then show ?thesis using assms(1) by (simp add: float_div_def overflow32_finite)
qed

lemma float_mul_unit:
  assumes "0 < r" "\<bar>c\<bar> \<le> 1"
  shows "float_mul (r * c) (Finite (1 / r)) = Finite c"
proof -
  have "r * c * (1 / r) = c" using assms(1) by simp
  moreover have "\<bar>c\<bar> < overflow_threshold" using assms(2) overflow_threshold_gt_one by linarith
  ultimately show ?thesis by (simp add: float_mul_def overflow32_finite)
qed

lemma abs_cos_cos_le: "\<bar>cos p * cos t\<bar> \<le> 1" "\<bar>cos p * sin t\<bar> \<le> 1" for p t :: real
proof -
  have "\<bar>cos p\<bar> * \<bar>cos t\<bar> \<le> 1 * 1" by (intro mult_mono) simp_all
  then show "\<bar>cos p * cos t\<bar> \<le> 1" by (simp add: abs_mult)
  have "\<bar>cos p\<bar> * \<bar>sin t\<bar> \<le> 1 * 1" by (intro mult_mono) simp_all
  then show "\<bar>cos p * sin t\<bar> \<le> 1" by (simp add: abs_mult)
qed

lemma vertex_normal_sphere:
  assumes "0 \<le> i" "i \<le> stacks" "0 \<le> j" "j \<le> sectors"
    and r: "0 < radius" "1 / radius < overflow_threshold"
  shows "vertex_normal (sphere_vertices radius sectors stacks) (nat (i * (sectors + 1) + j)) =
         Some (sphere_point 1 (pi / 2 - float_of_int i * (pi / real_of_int stacks))
                 (float_of_int j * (2 * pi / real_of_int sectors)))"
proof -
  let ?p = "pi / 2 - float_of_int i * (pi / real_of_int stacks)"
  let ?t = "float_of_int j * (2 * pi / real_of_int sectors)"
  have x: "float_mul (radius * cos ?p * cos ?t) (Finite (1 / radius)) = Finite (cos ?p * cos ?t)"
    unfolding mult.assoc by (rule float_mul_unit[OF r(1) abs_cos_cos_le(1)])
  have y: "float_mul (radius * cos ?p * sin ?t) (Finite (1 / radius)) = Finite (cos ?p * sin ?t)"
    unfolding mult.assoc by (rule float_mul_unit[OF r(1) abs_cos_cos_le(2)])
  have z: "float_mul (radius * sin ?p) (Finite (1 / radius)) = Finite (sin ?p)"
    by (rule float_mul_unit[OF r(1)]) simp
  have m: "(3::nat) < 6" "(4::nat) < 6" "(5::nat) < 6" by simp_all
  show ?thesis
    unfolding vertex_normal_def
      nth_sphere_vertices[OF assms(1-4) m(1), of radius]
      nth_sphere_vertices[OF assms(1-4) m(2), of radius]
      nth_sphere_vertices[OF assms(1-4) m(3), of radius]
      vertex6_nth float_div_finite[OF r] x y z
    by (simp add: finite_vec3_def sphere_point_def)
qed

lemma vertex_index_decompose:
  assumes "0 \<le> sectors" "0 \<le> stacks" "k < nat ((stacks + 1) * (sectors + 1))"
  obtains i j where "0 \<le> i" "i \<le> stacks" "0 \<le> j" "j \<le> sectors" "k = nat (i * (sectors + 1) + j)"
proof -
  let ?w = "sectors + 1"
  let ?i = "int k div ?w" and ?j = "int k mod ?w"
  have w: "0 < ?w" using assms by simp
  have kk: "int k < (stacks + 1) * ?w" using assms by linarith
  have j0: "0 \<le> ?j" using w by (rule pos_mod_sign)
  have j1: "?j < ?w" using w by (rule pos_mod_bound)
  have eq: "?i * ?w + ?j = int k" by (rule div_mult_mod_eq)
  have i0: "0 \<le> ?i" using w by (simp add: pos_imp_zdiv_nonneg_iff)
  have i1: "?i < stacks + 1"
  proof (rule ccontr)
    assume "\<not> ?i < stacks + 1"
    then have "(stacks + 1) * ?w \<le> ?i * ?w" using w by (simp add: mult_right_mono)
    then show False using kk eq j0 by linarith
  qed
  have "k = nat (?i * ?w + ?j)" by (simp only: eq nat_int)
  then show ?thesis using that[of ?i ?j] i0 i1 j0 j1 by linarith
qed

text \<open>The conversion of a counter to \<^verbatim>\<open>float\<close>.\<close>

lemma float_of_int_exact: "\<bar>k\<bar> \<le> 16777216 \<Longrightarrow> float_of_int k = real_of_int k"
  unfolding float_of_int_def by (rule round32_of_int)

lemma float_of_int_error: "\<bar>float_of_int k - real_of_int k\<bar> \<le> \<bar>real_of_int k\<bar> / 16777216"
proof (cases "k = 0")
  case True
  then show ?thesis by (simp add: float_of_int_def round32_def)
next
  case False
  then have "1 \<le> \<bar>real_of_int k\<bar>" by (simp flip: of_int_abs)
  moreover have "(2::real) powr (- 126) \<le> 1" by (simp add: powr_minus_divide)
  ultimately have "2 powr (- 126) \<le> \<bar>real_of_int k\<bar>" by linarith
  then have "\<bar>round32 (real_of_int k) - real_of_int k\<bar> \<le> \<bar>real_of_int k\<bar> / 2 ^ 24"
    by (rule round32_rel_error)
  then show ?thesis by (simp add: float_of_int_def)
qed

subsection \<open>Calls that fail\<close>

text \<open>With \<open>sectors = INT_MAX\<close> the condition \<open>j \<le> sectors\<close> holds for every \<^verbatim>\<open>int\<close>, and
  the increment of \<open>j = INT_MAX\<close> overflows.\<close>

lemma vertex_sector_loop_overflow:
  assumes "sectors = INT_MAX" "0 \<le> j" "j \<le> sectors"
    "length vertices + 6 * nat (sectors + 1 - j) \<le> capacity"
  shows "vertex_sector_loop capacity sectors sectorStep lengthInv xy z j vertices =
           Inl SignedOverflow"
  using assms
proof (induction capacity sectors sectorStep lengthInv xy z j vertices rule: vertex_sector_loop.induct)
  case (1 capacity sectors sectorStep lengthInv xy z j vertices)
  note True = "1.prems"(3)
  have n: "nat (sectors + 1 - j) = Suc (nat (sectors + 1 - (j + 1)))"
    using True by simp
  have room: "length vertices + 6 \<le> capacity" using "1.prems"(4) n by simp
  note body = vertex_body[OF room, of j sectorStep xy z lengthInv]
  show ?case
  proof (cases "j = INT_MAX")
    case True
    then have add: "int_add j 1 = Inl SignedOverflow" by (simp only: int_succ_overflow)
    show ?thesis
      by (subst vertex_sector_loop.simps) (simp only: "1.prems"(3) if_True body add sum.case)
  next
    case False
    then have lt: "j < INT_MAX" using "1.prems"(1,3) by simp
    have add: "int_add j 1 = Inr (j + 1)"
      using lt "1.prems"(2) by (intro int_succ_ok) simp_all
    have room': "length (vertices @ vertex6 sectorStep lengthInv xy z j)
                   + 6 * nat (sectors + 1 - (j + 1)) \<le> capacity"
      using "1.prems"(4) n by (simp add: vertex6_def)
    have j': "0 \<le> j + 1" "j + 1 \<le> sectors" using "1.prems"(1,2) lt by simp_all
    have "vertex_sector_loop capacity sectors sectorStep lengthInv xy z j vertices =
          vertex_sector_loop capacity sectors sectorStep lengthInv xy z (j + 1)
            (vertices @ vertex6 sectorStep lengthInv xy z j)"
      by (subst vertex_sector_loop.simps) (simp only: True if_True body add sum.case)
    also have "\<dots> = Inl SignedOverflow"
      by (rule "1.IH"[OF True body add "1.prems"(1) j' room'])
    finally show ?thesis .
  qed
qed

lemma vertex_stack_loop_first_row:
  assumes "0 \<le> stacks"
    "vertex_sector_loop capacity sectors sectorStep lengthInv
       (radius * cos (pi / 2 - float_of_int 0 * stackStep))
       (radius * sin (pi / 2 - float_of_int 0 * stackStep)) 0 vertices = Inl e"
  shows "vertex_stack_loop capacity radius sectors stacks sectorStep stackStep lengthInv 0 vertices =
           Inl e"
  by (subst vertex_stack_loop.simps) (simp add: assms Let_def)

text \<open>With \<open>stacks = INT_MAX\<close> the same happens to \<open>i\<close> in the outer loop.\<close>

lemma vertex_stack_loop_overflow:
  assumes "stacks = INT_MAX" "sectors < INT_MAX" "0 \<le> i" "i \<le> stacks"
    "length vertices + nat (stacks + 1 - i) * (nat (sectors + 1) * 6) \<le> capacity"
  shows "vertex_stack_loop capacity radius sectors stacks sectorStep stackStep lengthInv i vertices =
           Inl SignedOverflow"
  using assms
proof (induction capacity radius sectors stacks sectorStep stackStep lengthInv i vertices
    rule: vertex_stack_loop.induct)
  case (1 capacity radius sectors stacks sectorStep stackStep lengthInv i vertices)
  note True = "1.prems"(4)
  have n: "nat (stacks + 1 - i) = Suc (nat (stacks + 1 - (i + 1)))"
    using True by simp
  have room: "length vertices + 6 * nat (sectors + 1 - 0) \<le> capacity"
    using "1.prems"(5) n by simp
  have row: "(let stackAngle = pi / 2 - float_of_int i * stackStep;
             xy = radius * cos stackAngle;
             z = radius * sin stackAngle
         in vertex_sector_loop capacity sectors sectorStep lengthInv xy z 0 vertices)
             = Inr (vertices @ vertex_row radius sectors sectorStep stackStep lengthInv i)"
    unfolding Let_def vertex_row_def
    by (rule vertex_sector_loop_eq[OF "1.prems"(2) order_refl room])
  show ?case
  proof (cases "i = INT_MAX")
    case True
    then have add: "int_add i 1 = Inl SignedOverflow" by (simp only: int_succ_overflow)
    show ?thesis
      by (subst vertex_stack_loop.simps) (simp only: "1.prems"(4) if_True row add sum.case)
  next
    case False
    then have lt: "i < INT_MAX" using "1.prems"(1,4) by simp
    have add: "int_add i 1 = Inr (i + 1)"
      using lt "1.prems"(3) by (intro int_succ_ok) simp_all
    have room': "length (vertices @ vertex_row radius sectors sectorStep stackStep lengthInv i)
                   + nat (stacks + 1 - (i + 1)) * (nat (sectors + 1) * 6) \<le> capacity"
      using "1.prems"(5) n by (simp add: length_vertex_row)
    have i': "0 \<le> i + 1" "i + 1 \<le> stacks" using "1.prems"(1,3) lt by simp_all
    have "vertex_stack_loop capacity radius sectors stacks sectorStep stackStep lengthInv i vertices =
          vertex_stack_loop capacity radius sectors stacks sectorStep stackStep lengthInv (i + 1)
            (vertices @ vertex_row radius sectors sectorStep stackStep lengthInv i)"
      by (subst vertex_stack_loop.simps) (simp only: True if_True row add sum.case)
    also have "\<dots> = Inl SignedOverflow"
      by (rule "1.IH"[OF True row add "1.prems"(1,2) i' room'])
    finally show ?thesis .
  qed
qed

lemma generateSphere_sectors_overflow:
  assumes "0 \<le> stacks" "length vertices + 6 * 2147483648 \<le> capacity"
  shows "generateSphere capacity radius INT_MAX stacks vertices indices = Inl SignedOverflow"
proof -
  have "vertex_sector_loop capacity INT_MAX sectorStep lengthInv xy z 0 vertices =
          Inl SignedOverflow" for sectorStep lengthInv xy z
    using assms(2) by (intro vertex_sector_loop_overflow) (simp_all add: INT_MAX_def)
  then have "vertex_stack_loop capacity radius INT_MAX stacks sectorStep stackStep lengthInv 0
               vertices = Inl SignedOverflow" for sectorStep stackStep lengthInv
    using assms(1) by (intro vertex_stack_loop_first_row)
  then show ?thesis by (simp add: generateSphere_def Let_def)
qed

lemma generateSphere_stacks_overflow:
  assumes "0 \<le> sectors" "sectors < INT_MAX"
    "length vertices + 2147483648 * (nat (sectors + 1) * 6) \<le> capacity"
  shows "generateSphere capacity radius sectors INT_MAX vertices indices = Inl SignedOverflow"
proof -
  have "vertex_stack_loop capacity radius sectors INT_MAX sectorStep stackStep lengthInv 0
               vertices = Inl SignedOverflow" for sectorStep stackStep lengthInv
    using assms by (intro vertex_stack_loop_overflow) (simp_all add: INT_MAX_def)
  then show ?thesis by (simp add: generateSphere_def Let_def)
qed

subsection \<open>The generated vertices\<close>

text \<open>
  Claim C1, as the specification states it, is about every radius \<open>r > 0\<close> and all counts
  from 3 on. It fails at both ends of the range of the parameter types. With
  \<open>sectors = 2147483647\<close> (and room for every vertex the loop can reach) the call does not
  produce \<open>(stacks+1)\<times>(sectors+1)\<close> vertices: the counter of the inner loop overflows. With
  the radius \<open>2\<^sup>-\<^sup>1\<^sup>3\<^sup>0\<close>, a subnormal \<^verbatim>\<open>float\<close>, the quotient \<^verbatim>\<open>1.0f / radius\<close> is infinite,
  and the normal of vertex 0, which is the position \<open>(0, 0, r)\<close> times this quotient,
  has a NaN and an infinite component and no length.
\<close>

theorem generateSphere_vertices_fail:
  "generateSphere (2 ^ 40) 1 2147483647 3 [] [] = Inl SignedOverflow \<and>
   returns (generateSphere 1000 (1 / 2 ^ 130) 3 3 [] []) \<and>
   vertices_of (generateSphere 1000 (1 / 2 ^ 130) 3 3 [] []) ! 3 = NaN \<and>
   vertices_of (generateSphere 1000 (1 / 2 ^ 130) 3 3 [] []) ! 5 = PosInf \<and>
   vertex_normal (vertices_of (generateSphere 1000 (1 / 2 ^ 130) 3 3 [] [])) 0 = None"
proof -
  have a: "generateSphere (2 ^ 40) 1 2147483647 3 [] [] = Inl SignedOverflow"
    using generateSphere_sectors_overflow[of 3 "[]" "2 ^ 40" 1 "[]"]
    by (simp add: INT_MAX_def)
  let ?r = "1 / 2 ^ 130 :: real"
  have g: "generateSphere 1000 ?r 3 3 [] [] = Inr ([] @ sphere_vertices ?r 3 3, [] @ sphere_indices 3 3)"
    by (rule generateSphere_result) simp_all
  have v: "vertices_of (generateSphere 1000 ?r 3 3 [] []) = sphere_vertices ?r 3 3"
    by (simp only: g vertices_of_Inr append_Nil)
  have d: "float_div 1 ?r = PosInf"
    by (simp add: float_div_def overflow32_def overflow_threshold_def)
  have z: "float_of_int 0 = 0" by (simp add: float_of_int_def round32_def)
  have ij: "(0::int) \<le> 0" "(0::int) \<le> 3" by simp_all
  have m: "(3::nat) < 6" "(4::nat) < 6" "(5::nat) < 6" by simp_all
  note e = nth_sphere_vertices[OF ij ij, of _ ?r, unfolded vertex6_nth d z]
  have e3: "sphere_vertices ?r 3 3 ! 3 = NaN"
    using e[OF m(1)] by (simp add: vertex6_nth d z float_mul_def)
  have e5: "sphere_vertices ?r 3 3 ! 5 = PosInf"
    using e[OF m(3)] by (simp add: vertex6_nth d z float_mul_def)
  have n: "vertex_normal (sphere_vertices ?r 3 3) 0 = None"
    using e3 by (simp add: vertex_normal_def finite_vec3_def)
  have r: "returns (generateSphere 1000 ?r 3 3 [] [])"
    by (simp only: g returns_Inr)
  show ?thesis
    unfolding v using a r e3 e5 n by (intro conjI)
qed

lemma produced_vertices:
  assumes "1 \<le> sectors" "1 \<le> stacks" "(stacks + 1) * (sectors + 1) \<le> 2147483648"
    "length vertices + 6 * nat ((stacks + 1) * (sectors + 1)) \<le> capacity"
    "length indices + nat (6 * sectors * (stacks - 1)) \<le> capacity"
  shows "drop (length vertices)
           (vertices_of (generateSphere capacity radius sectors stacks vertices indices)) =
         sphere_vertices radius sectors stacks"
    and "take (length vertices)
           (vertices_of (generateSphere capacity radius sectors stacks vertices indices)) =
         vertices"
    and "returns (generateSphere capacity radius sectors stacks vertices indices)"
  by (simp_all add: generateSphere_result[OF assms] vertices_of_Inr returns_Inr)

text \<open>
  Claim C1, as amended. Let \<open>r > 0\<close> be a radius whose reciprocal is below the overflow
  threshold \<open>2\<^sup>1\<^sup>2\<^sup>8 - 2\<^sup>1\<^sup>0\<^sup>3\<close> (every normal \<^verbatim>\<open>float\<close> is), \<open>sectors \<ge> 3\<close> and \<open>stacks \<ge> 3\<close>
  with \<open>(stacks+1)\<cdot>(sectors+1) \<le> 2\<^sup>3\<^sup>1\<close>, and let the two vectors be able to grow by the
  \<open>6\<cdot>(stacks+1)\<cdot>(sectors+1)\<close> floats and \<open>6\<cdot>sectors\<cdot>(stacks-1)\<close> indices of the mesh. Then
  the call returns, keeps what the vertex vector held and appends exactly
  \<open>(stacks+1)\<times>(sectors+1)\<close> vertices of six floats each. The vertex of stack \<open>i\<close> and
  sector \<open>j\<close> is vertex number \<open>i\<cdot>(sectors+1)+j\<close>; its position is
  \<open>(r\<cdot>cos \<phi>\<cdot>cos \<theta>, r\<cdot>cos \<phi>\<cdot>sin \<theta>, r\<cdot>sin \<phi>)\<close> with \<open>\<phi> = \<pi>/2 - i'\<cdot>(\<pi>/stacks)\<close> and
  \<open>\<theta> = j'\<cdot>(2\<pi>/sectors)\<close>, where \<open>i'\<close> and \<open>j'\<close> are the counters converted to \<^verbatim>\<open>float\<close>,
  and its normal is the position divided by \<open>r\<close>. A counter \<open>k\<close> up to \<open>2\<^sup>2\<^sup>4\<close> is
  converted exactly, and every counter with an error of at most \<open>k/2\<^sup>2\<^sup>4\<close>. Every
  position has length \<open>r\<close> and every normal has length 1.
\<close>

theorem generateSphere_vertices:
  assumes "0 < radius" "1 / radius < overflow_threshold" "3 \<le> sectors" "3 \<le> stacks"
    "(stacks + 1) * (sectors + 1) \<le> 2147483648"
    "length vertices + 6 * nat ((stacks + 1) * (sectors + 1)) \<le> capacity"
    "length indices + nat (6 * sectors * (stacks - 1)) \<le> capacity"
  shows "let result = generateSphere capacity radius sectors stacks vertices indices;
             produced = drop (length vertices) (vertices_of result)
         in returns result \<and>
            take (length vertices) (vertices_of result) = vertices \<and>
            length produced = 6 * nat ((stacks + 1) * (sectors + 1)) \<and>
            vertex_count produced = nat ((stacks + 1) * (sectors + 1)) \<and>
            (\<forall>i j. 0 \<le> i \<and> i \<le> stacks \<and> 0 \<le> j \<and> j \<le> sectors \<longrightarrow>
               (let phi = pi / 2 - float_of_int i * (pi / real_of_int stacks);
                    theta = float_of_int j * (2 * pi / real_of_int sectors);
                    p = Vec3 (radius * cos phi * cos theta) (radius * cos phi * sin theta)
                             (radius * sin phi)
                in vertex_position produced (nat (i * (sectors + 1) + j)) = Some p \<and>
                   vertex_normal produced (nat (i * (sectors + 1) + j)) =
                     Some (Vec3 (vx p / radius) (vy p / radius) (vz p / radius)))) \<and>
            (\<forall>k. \<bar>float_of_int k - real_of_int k\<bar> \<le> \<bar>real_of_int k\<bar> / 16777216 \<and>
                 (\<bar>k\<bar> \<le> 16777216 \<longrightarrow> float_of_int k = real_of_int k)) \<and>
            (\<forall>k < vertex_count produced.
               map_option vlength (vertex_position produced k) = Some radius \<and>
               map_option vlength (vertex_normal produced k) = Some 1)"
proof -
  let ?vs = "sphere_vertices radius sectors stacks"
  let ?n = "nat ((stacks + 1) * (sectors + 1))"
  have c: "1 \<le> sectors" "1 \<le> stacks" using assms(3,4) by simp_all
  note pv = produced_vertices[OF c assms(5,6,7), of radius]
  have len: "length ?vs = 6 * ?n"
    using assms by (simp add: length_sphere_vertices_pos)
  then have cnt: "vertex_count ?vs = ?n" by (simp add: vertex_count_def)
  have pos: "\<forall>i j. 0 \<le> i \<and> i \<le> stacks \<and> 0 \<le> j \<and> j \<le> sectors \<longrightarrow>
               (let phi = pi / 2 - float_of_int i * (pi / real_of_int stacks);
                    theta = float_of_int j * (2 * pi / real_of_int sectors);
                    p = Vec3 (radius * cos phi * cos theta) (radius * cos phi * sin theta)
                             (radius * sin phi)
                in vertex_position ?vs (nat (i * (sectors + 1) + j)) = Some p \<and>
                   vertex_normal ?vs (nat (i * (sectors + 1) + j)) =
                     Some (Vec3 (vx p / radius) (vy p / radius) (vz p / radius)))"
    using assms(1)
    by (simp add: vertex_position_sphere vertex_normal_sphere[OF _ _ _ _ assms(1,2)] Let_def
        sphere_point_def)
  have conv: "\<forall>k. \<bar>float_of_int k - real_of_int k\<bar> \<le> \<bar>real_of_int k\<bar> / 16777216 \<and>
                 (\<bar>k\<bar> \<le> 16777216 \<longrightarrow> float_of_int k = real_of_int k)"
    using float_of_int_error float_of_int_exact by blast
  have mag: "\<forall>k < vertex_count ?vs.
               map_option vlength (vertex_position ?vs k) = Some radius \<and>
               map_option vlength (vertex_normal ?vs k) = Some 1"
  proof (intro allI impI)
    fix k assume "k < vertex_count ?vs"
    then have "k < ?n" using cnt by simp
    then obtain i j where ij: "0 \<le> i" "i \<le> stacks" "0 \<le> j" "j \<le> sectors"
        and k: "k = nat (i * (sectors + 1) + j)"
      using assms vertex_index_decompose[of sectors stacks k] by (metis order_trans zero_le_numeral)
    have "map_option vlength (vertex_position ?vs k) = Some \<bar>radius\<bar>"
      unfolding k vertex_position_sphere[OF ij] sphere_point_def
      by (simp only: option.map vlength_sphere_point)
    moreover have "map_option vlength (vertex_normal ?vs k) = Some \<bar>1\<bar>"
      unfolding k vertex_normal_sphere[OF ij assms(1,2)] sphere_point_def
      by (simp only: option.map vlength_sphere_point)
    ultimately show "map_option vlength (vertex_position ?vs k) = Some radius \<and>
                     map_option vlength (vertex_normal ?vs k) = Some 1"
      using assms(1) by simp
  qed
  show ?thesis
    unfolding Let_def pv(1)
    using pv(2,3) len cnt pos conv mag unfolding Let_def by (intro conjI)
qed

theorem generateSphere_vertices_witness:
  "(0::real) < 2 \<and> 1 / 2 < overflow_threshold \<and> (3::int) \<le> 3 \<and> (3::int) \<le> 4 \<and>
   ((4::int) + 1) * (3 + 1) \<le> 2147483648 \<and>
   length [Finite 7, Finite 8] + 6 * nat ((4 + 1) * (3 + 1)) \<le> (1000::nat) \<and>
   length [9::int] + nat (6 * 3 * (4 - 1)) \<le> (1000::nat) \<and>
   returns (generateSphere 1000 2 3 4 [Finite 7, Finite 8] [9]) \<and>
   vertex_count (drop (length [Finite 7, Finite 8])
      (vertices_of (generateSphere 1000 2 3 4 [Finite 7, Finite 8] [9]))) = 20 \<and>
   vertex_position (drop (length [Finite 7, Finite 8])
      (vertices_of (generateSphere 1000 2 3 4 [Finite 7, Finite 8] [9]))) 0 = Some (Vec3 0 0 2) \<and>
   map_option vlength (vertex_normal (drop (length [Finite 7, Finite 8])
      (vertices_of (generateSphere 1000 2 3 4 [Finite 7, Finite 8] [9]))) 19) = Some 1"
proof -
  let ?P = "drop (length [Finite 7, Finite 8])
      (vertices_of (generateSphere 1000 2 3 4 [Finite 7, Finite 8] [9]))"
  have h: "(0::real) < 2" "1 / 2 < overflow_threshold" "(3::int) \<le> 3" "(3::int) \<le> 4"
    "((4::int) + 1) * (3 + 1) \<le> 2147483648"
    "length [Finite 7, Finite 8] + 6 * nat ((4 + 1) * (3 + 1)) \<le> (1000::nat)"
    "length [9::int] + nat (6 * 3 * (4 - 1)) \<le> (1000::nat)"
    by (simp_all add: overflow_threshold_def)
  note t = generateSphere_vertices[OF h, unfolded Let_def]
  have r: "returns (generateSphere 1000 2 3 4 [Finite 7, Finite 8] [9])"
    by (rule conjunct1[OF t])
  have c: "vertex_count ?P = nat ((4 + 1) * (3 + 1))"
    by (rule conjunct1[OF conjunct2[OF conjunct2[OF conjunct2[OF t]]]])
  have z: "float_of_int 0 = 0" by (simp add: float_of_int_def round32_def)
  have "(0::int) \<le> 0 \<and> (0::int) \<le> 4 \<and> (0::int) \<le> 0 \<and> (0::int) \<le> 3" by simp
  then have "vertex_position ?P (nat (0 * (3 + 1) + 0)) =
               Some (Vec3 (2 * cos (pi / 2 - float_of_int 0 * (pi / real_of_int 4))
                       * cos (float_of_int 0 * (2 * pi / real_of_int 3)))
                    (2 * cos (pi / 2 - float_of_int 0 * (pi / real_of_int 4))
                       * sin (float_of_int 0 * (2 * pi / real_of_int 3)))
                    (2 * sin (pi / 2 - float_of_int 0 * (pi / real_of_int 4))))"
    by (rule conjunct1[OF mp[OF spec[OF spec[OF conjunct1[OF conjunct2[OF conjunct2[OF conjunct2[OF conjunct2[OF t]]]]]]]]])
  then have p: "vertex_position ?P 0 = Some (Vec3 0 0 2)"
    by (simp add: z)
  have "(19::nat) < vertex_count ?P"
    by (simp only: c) simp
  then have n: "map_option vlength (vertex_normal ?P 19) = Some 1"
    by (rule conjunct2[OF mp[OF spec[OF conjunct2[OF conjunct2[OF conjunct2[OF conjunct2[OF conjunct2[OF conjunct2[OF t]]]]]]]]])
  have c': "vertex_count ?P = 20" by (simp only: c) simp
  show ?thesis using h r c' p n by (intro conjI)
qed

subsection \<open>The index buffer\<close>

lemma set_sphere_indices:
  assumes "x \<in> set (sphere_indices sectors stacks)"
  shows "0 \<le> x \<and> x < (stacks + 1) * (sectors + 1)"
proof -
  from assms obtain i j where i: "0 \<le> i" "i \<le> stacks - 1" and j: "0 \<le> j" "j \<le> sectors - 1"
      and x: "x \<in> set (index_cell sectors stacks i j)"
    by (auto simp: sphere_indices_def index_row_def)
  have lo: "0 \<le> i * (sectors + 1)" using i j by simp
  have "i * (sectors + 1) \<le> (stacks - 1) * (sectors + 1)"
    using i j by (intro mult_right_mono) simp_all
  then have hi: "i * (sectors + 1) + j + sectors + 2 < (stacks + 1) * (sectors + 1)"
    using j by (simp add: algebra_simps)
  from x have "i * (sectors + 1) + j \<le> x \<and> x \<le> i * (sectors + 1) + j + sectors + 2"
    using j by (auto simp: index_cell_def split: if_splits)
  then show ?thesis using lo hi j by linarith
qed

lemma produced_indices:
  assumes "1 \<le> sectors" "1 \<le> stacks" "(stacks + 1) * (sectors + 1) \<le> 2147483648"
    "length vertices + 6 * nat ((stacks + 1) * (sectors + 1)) \<le> capacity"
    "length indices + nat (6 * sectors * (stacks - 1)) \<le> capacity"
  shows "drop (length indices)
           (indices_of (generateSphere capacity radius sectors stacks vertices indices)) =
         sphere_indices sectors stacks"
    and "take (length indices)
           (indices_of (generateSphere capacity radius sectors stacks vertices indices)) =
         indices"
  by (simp_all add: generateSphere_result[OF assms] indices_of_Inr)

lemma sphere_indices_unfold:
  "sphere_indices sectors stacks =
     concat (map (\<lambda>i. concat (map (\<lambda>j.
        (let k1 = i * (sectors + 1) + j; k2 = k1 + sectors + 1
         in (if i \<noteq> 0 then [k1, k2, k1 + 1] else []) @
            (if i \<noteq> stacks - 1 then [k1 + 1, k2, k2 + 1] else []))) [0..sectors - 1]))
       [0..stacks - 1])"
proof -
  have "index_cell sectors stacks = (\<lambda>i j. 
        (let k1 = i * (sectors + 1) + j; k2 = k1 + sectors + 1
         in (if i \<noteq> 0 then [k1, k2, k1 + 1] else []) @
            (if i \<noteq> stacks - 1 then [k1 + 1, k2, k2 + 1] else [])))"
    by (intro ext) (simp add: index_cell_def Let_def)
  then have "index_row sectors stacks = (\<lambda>i. concat (map (\<lambda>j.
        (let k1 = i * (sectors + 1) + j; k2 = k1 + sectors + 1
         in (if i \<noteq> 0 then [k1, k2, k1 + 1] else []) @
            (if i \<noteq> stacks - 1 then [k1 + 1, k2, k2 + 1] else []))) [0..sectors - 1]))"
    by (intro ext) (simp only: index_row_def)
  then show ?thesis by (simp only: sphere_indices_def)
qed

text \<open>The index loop fails in the row \<open>i0\<close> whose \<open>k2\<close> would be \<open>2\<^sup>3\<^sup>1\<close>, after the rows before
  it have been appended.\<close>

lemma length_index_row_le: "length (index_row sectors stacks i) \<le> nat sectors * 6"
  by (simp add: length_index_row)

lemma index_stack_loop_overflow:
  assumes "0 \<le> i" "i \<le> i0" "i0 < stacks" "0 \<le> sectors" "1 \<le> i0"
    "(i0 + 1) * (sectors + 1) = 2147483648"
    "length indices + nat (i0 - i) * (nat sectors * 6) \<le> capacity"
  shows "index_stack_loop capacity sectors stacks i indices = Inl SignedOverflow"
  using assms
proof (induction capacity sectors stacks i indices rule: index_stack_loop.induct)
  case (1 capacity sectors stacks i indices)
  let ?w = "sectors + 1"
  have True: "i < stacks" using "1.prems"(2,3) by simp
  have w1: "1 \<le> ?w" using "1.prems"(4) by simp
  have iw0: "0 \<le> i * ?w" using "1.prems"(1) w1 by simp
  have "(i + 1) * ?w \<le> (i0 + 1) * ?w"
    using "1.prems"(2) w1 by (intro mult_right_mono) simp_all
  then have top: "i * ?w + ?w \<le> 2147483648"
    using "1.prems"(6) by (simp add: algebra_simps)
  have "2 * ?w \<le> (i0 + 1) * ?w"
    using "1.prems"(5) w1 by (intro mult_right_mono) simp_all
  then have w2: "2 * ?w \<le> 2147483648" using "1.prems"(6) by simp
  have aw: "int_add sectors 1 = Inr ?w"
    using w2 "1.prems"(4) by (intro int_add_ok) (simp_all add: INT_MAX_def INT_MIN_def)
  have ak1: "int_mul i ?w = Inr (i * ?w)"
    using top w2 iw0 "1.prems"(4) by (intro int_mul_ok) (simp_all add: INT_MAX_def INT_MIN_def)
  have ak: "int_add (i * ?w) sectors = Inr (i * ?w + sectors)"
    using top iw0 "1.prems"(4) by (intro int_add_ok) (simp_all add: INT_MAX_def INT_MIN_def)
  show ?case
  proof (cases "i = i0")
    case True
    then have "i * ?w + sectors + 1 = 2147483648"
      using "1.prems"(6) by (simp add: algebra_simps)
    then have ak2: "int_add (i * ?w + sectors) 1 = Inl SignedOverflow"
      by (simp add: int_add_def INT_MAX_def)
    have row: "and_then (int_add sectors 1) (\<lambda>w.
          and_then (int_mul i w) (\<lambda>k1.
          and_then (int_add k1 sectors) (\<lambda>k.
          and_then (int_add k 1) (\<lambda>k2.
          index_sector_loop capacity sectors stacks i 0 k1 k2 indices))))
          = Inl SignedOverflow"
      by (simp add: aw ak1 ak ak2)
    show ?thesis
      by (subst index_stack_loop.simps) (simp only: \<open>i < stacks\<close> if_True row sum.case)
  next
    case False
    then have lt: "i < i0" using "1.prems"(2) by simp
    then have "(i + 2) * ?w \<le> (i0 + 1) * ?w"
      using w1 by (intro mult_right_mono) simp_all
    then have top2: "i * ?w + 2 * ?w \<le> 2147483648"
      using "1.prems"(6) by (simp add: algebra_simps)
    have ak2: "int_add (i * ?w + sectors) 1 = Inr (i * ?w + sectors + 1)"
      using top2 iw0 "1.prems"(4) by (intro int_add_ok) (simp_all add: INT_MAX_def INT_MIN_def)
    have n: "nat (i0 - i) = Suc (nat (i0 - (i + 1)))" using lt by simp
    have "length (index_row sectors stacks i) \<le> nat sectors * 6" by (rule length_index_row_le)
    then have room: "length indices +
                length (concat (map (index_cell sectors stacks i) [0..sectors - 1])) \<le> capacity"
      and room': "length (indices @ index_row sectors stacks i) +
                 nat (i0 - (i + 1)) * (nat sectors * 6) \<le> capacity"
      using "1.prems"(7) unfolding n by (simp_all add: index_row_def)
    have "index_sector_loop capacity sectors stacks i 0 (i * ?w) (i * ?w + sectors + 1) indices =
          Inr (indices @ concat (map (index_cell sectors stacks i) [0..sectors - 1]))"
      using top2 iw0 "1.prems"(4) room
      by (intro index_sector_loop_eq) (simp_all add: INT_MAX_def)
    then have row: "and_then (int_add sectors 1) (\<lambda>w.
          and_then (int_mul i w) (\<lambda>k1.
          and_then (int_add k1 sectors) (\<lambda>k.
          and_then (int_add k 1) (\<lambda>k2.
          index_sector_loop capacity sectors stacks i 0 k1 k2 indices))))
          = Inr (indices @ index_row sectors stacks i)"
      by (simp add: aw ak1 ak ak2 index_row_def)
    have "(i0 + 1) * 1 \<le> (i0 + 1) * ?w"
      using "1.prems"(5) w1 by (intro mult_left_mono) simp_all
    then have "i + 1 < 2147483648" using lt "1.prems"(6) by simp
    then have ai: "int_add i 1 = Inr (i + 1)"
      using "1.prems"(1) by (intro int_add_ok) (simp_all add: INT_MAX_def INT_MIN_def)
    have i': "0 \<le> i + 1" "i + 1 \<le> i0" using "1.prems"(1) lt by simp_all
    have "index_stack_loop capacity sectors stacks i indices =
          index_stack_loop capacity sectors stacks (i + 1) (indices @ index_row sectors stacks i)"
      by (subst index_stack_loop.simps) (simp only: \<open>i < stacks\<close> if_True row ai sum.case)
    also have "\<dots> = Inl SignedOverflow"
      by (rule "1.IH"[OF \<open>i < stacks\<close> row ai i' "1.prems"(3,4,5,6) room'])
    finally show ?thesis .
  qed
qed

text \<open>
  Claim C2, as the specification states it, is about all counts from 3 on. With
  \<open>sectors = 65535\<close> and \<open>stacks = 32768\<close> the mesh has \<open>2\<^sup>3\<^sup>1 + 65536\<close> vertices. The vertex
  loops run to their end, but in row \<open>i = 32767\<close> of the index loop \<open>k2 = k1 + sectors + 1\<close>
  is \<open>2\<^sup>3\<^sup>1\<close>, which is not an \<^verbatim>\<open>int\<close>: no index buffer of the stated length is produced.
\<close>

theorem generateSphere_indices_fail:
  "generateSphere (2 ^ 40) 1 65535 32768 [] [] = Inl SignedOverflow"
proof -
  have v: "vertex_stack_loop (2 ^ 40) 1 65535 32768 sectorStep stackStep lengthInv 0 [] =
        Inr ([] @ concat (map (vertex_row 1 65535 sectorStep stackStep lengthInv) [0..32768]))"
    for sectorStep stackStep lengthInv
    by (rule vertex_stack_loop_eq) (simp_all add: INT_MAX_def)
  have i: "index_stack_loop (2 ^ 40) 65535 32768 0 [] = Inl SignedOverflow"
    by (rule index_stack_loop_overflow[where ?i0.0 = 32767]) simp_all
  show ?thesis
    by (simp only: generateSphere_def Let_def v i and_then_simps)
qed

text \<open>
  Claim C2, as amended. For every radius \<open>r > 0\<close>, \<open>sectors \<ge> 3\<close> and \<open>stacks \<ge> 3\<close> with
  \<open>(stacks+1)\<cdot>(sectors+1) \<le> 2\<^sup>3\<^sup>1\<close>, when the two vectors can grow by the
  \<open>6\<cdot>(stacks+1)\<cdot>(sectors+1)\<close> floats and \<open>6\<cdot>sectors\<cdot>(stacks-1)\<close> indices of the mesh, the
  call returns and keeps what the index vector held. The indices it appends are, cell
  by cell (stack \<open>i\<close> from 0 to \<open>stacks-1\<close>, sector \<open>j\<close> from 0 to \<open>sectors-1\<close>,
  \<open>k1 = i\<cdot>(sectors+1)+j\<close>, \<open>k2 = k1+sectors+1\<close>), the triangle \<open>(k1, k2, k1+1)\<close> unless \<open>i = 0\<close>
  and the triangle \<open>(k1+1, k2, k2+1)\<close> unless \<open>i = stacks-1\<close>. Their number is
  \<open>2\<cdot>sectors\<cdot>(stacks-1)\<cdot>3\<close>, and each one is a valid index into the
  \<open>(stacks+1)\<times>(sectors+1)\<close> vertices appended by the same call.
\<close>

theorem generateSphere_indices:
  assumes "0 < radius" "3 \<le> sectors" "3 \<le> stacks"
    "(stacks + 1) * (sectors + 1) \<le> 2147483648"
    "length vertices + 6 * nat ((stacks + 1) * (sectors + 1)) \<le> capacity"
    "length indices + nat (6 * sectors * (stacks - 1)) \<le> capacity"
  shows "let result = generateSphere capacity radius sectors stacks vertices indices;
             produced = drop (length indices) (indices_of result);
             produced_vertices = drop (length vertices) (vertices_of result)
         in returns result \<and>
            take (length indices) (indices_of result) = indices \<and>
            produced =
              concat (map (\<lambda>i. concat (map (\<lambda>j.
                 (let k1 = i * (sectors + 1) + j; k2 = k1 + sectors + 1
                  in (if i \<noteq> 0 then [k1, k2, k1 + 1] else []) @
                     (if i \<noteq> stacks - 1 then [k1 + 1, k2, k2 + 1] else []))) [0..sectors - 1]))
                [0..stacks - 1]) \<and>
            int (length produced) = 2 * sectors * (stacks - 1) * 3 \<and>
            int (vertex_count produced_vertices) = (stacks + 1) * (sectors + 1) \<and>
            (\<forall>x \<in> set produced. 0 \<le> x \<and> x < int (vertex_count produced_vertices))"
proof -
  have c: "1 \<le> sectors" "1 \<le> stacks" using assms(2,3) by simp_all
  note pv = produced_vertices[OF c assms(4,5,6), of radius]
  note pi = produced_indices[OF c assms(4,5,6), of radius]
  have cnt: "int (vertex_count (sphere_vertices radius sectors stacks)) = (stacks + 1) * (sectors + 1)"
    using assms by (simp add: vertex_count_def length_sphere_vertices nat_mult_distrib)
  have len: "int (length (sphere_indices sectors stacks)) = 2 * sectors * (stacks - 1) * 3"
    using assms by (intro length_sphere_indices) simp_all
  have bnd: "\<forall>x \<in> set (sphere_indices sectors stacks).
               0 \<le> x \<and> x < int (vertex_count (sphere_vertices radius sectors stacks))"
    unfolding cnt using set_sphere_indices by blast
  show ?thesis
    unfolding Let_def pi(1) pv(1)
    using pv(3) pi(2) sphere_indices_unfold[of sectors stacks, unfolded Let_def] len cnt bnd
    by (intro conjI)
qed

theorem generateSphere_indices_witness:
  "(0::real) < 1 \<and> (3::int) \<le> 4 \<and> (3::int) \<le> 3 \<and>
   ((3::int) + 1) * (4 + 1) \<le> 2147483648 \<and>
   length ([]::fp list) + 6 * nat ((3 + 1) * (4 + 1)) \<le> (200::nat) \<and>
   length [5::int] + nat (6 * 4 * (3 - 1)) \<le> (200::nat) \<and>
   returns (generateSphere 200 1 4 3 [] [5]) \<and>
   take (length [5::int]) (indices_of (generateSphere 200 1 4 3 [] [5])) = [5] \<and>
   int (length (drop (length [5::int]) (indices_of (generateSphere 200 1 4 3 [] [5])))) = 48 \<and>
   int (vertex_count (drop (length ([]::fp list))
          (vertices_of (generateSphere 200 1 4 3 [] [5])))) = 20"
proof -
  have h: "(0::real) < 1" "(3::int) \<le> 4" "(3::int) \<le> 3"
    "((3::int) + 1) * (4 + 1) \<le> 2147483648"
    "length ([]::fp list) + 6 * nat ((3 + 1) * (4 + 1)) \<le> (200::nat)"
    "length [5::int] + nat (6 * 4 * (3 - 1)) \<le> (200::nat)"
    by simp_all
  note t = generateSphere_indices[OF h, unfolded Let_def]
  have r: "returns (generateSphere 200 1 4 3 [] [5])"
    by (rule conjunct1[OF t])
  have k: "take (length [5::int]) (indices_of (generateSphere 200 1 4 3 [] [5])) = [5]"
    by (rule conjunct1[OF conjunct2[OF t]])
  have l: "int (length (drop (length [5::int]) (indices_of (generateSphere 200 1 4 3 [] [5])))) =
           2 * 4 * (3 - 1) * 3"
    by (rule conjunct1[OF conjunct2[OF conjunct2[OF conjunct2[OF t]]]])
  have c: "int (vertex_count (drop (length ([]::fp list))
             (vertices_of (generateSphere 200 1 4 3 [] [5])))) = (3 + 1) * (4 + 1)"
    by (rule conjunct1[OF conjunct2[OF conjunct2[OF conjunct2[OF conjunct2[OF t]]]]])
  have l': "int (length (drop (length [5::int]) (indices_of (generateSphere 200 1 4 3 [] [5])))) = 48"
    by (simp only: l) simp
  have c': "int (vertex_count (drop (length ([]::fp list))
              (vertices_of (generateSphere 200 1 4 3 [] [5])))) = 20"
    by (simp only: c) simp
  show ?thesis using h r k l' c' by (intro conjI)
qed

subsection \<open>Triangle winding\<close>
































subsection \<open>Totality and dependence on the inputs\<close>

text \<open>
  Claim C8, as the specification states it, promises a normal return for every radius
  \<open>r > 0\<close> and all positive counts. With \<open>sectors = 2147483647\<close> and \<open>stacks = 1\<close> the call
  ends in a signed overflow, however far the vectors can grow. With a vector that
  cannot grow beyond 10 elements the call for a 3 by 3 mesh ends in the second vertex
  with the allocation error of \<^verbatim>\<open>push_back\<close>.
\<close>

theorem generateSphere_not_total:
  "generateSphere (2 ^ 40) 1 2147483647 1 [] [] = Inl SignedOverflow \<and>
   \<not> returns (generateSphere (2 ^ 40) 1 2147483647 1 [] []) \<and>
   generateSphere 10 1 3 3 [] [] = Inl BadAlloc"
proof -
  have a: "generateSphere (2 ^ 40) 1 2147483647 1 [] [] = Inl SignedOverflow"
    using generateSphere_sectors_overflow[of 1 "[]" "2 ^ 40" 1 "[]"]
    by (simp add: INT_MAX_def)
  have "vertex_sector_loop 10 3 sectorStep lengthInv xy z 0 [] = Inl BadAlloc"
    for sectorStep lengthInv xy z
    apply (subst vertex_sector_loop.simps)
    apply (simp add: push_back_def Let_def int_add_def INT_MAX_def INT_MIN_def)
    apply (subst vertex_sector_loop.simps)
    apply (simp add: push_back_def Let_def)
    done
  then have "vertex_stack_loop 10 1 3 3 sectorStep stackStep lengthInv 0 [] = Inl BadAlloc"
    for sectorStep stackStep lengthInv
    by (intro vertex_stack_loop_first_row) simp_all
  then have b: "generateSphere 10 1 3 3 [] [] = Inl BadAlloc"
    by (simp add: generateSphere_def Let_def)
  show ?thesis using a b by (simp add: returns_def)
qed

text \<open>
  Claim C8, as amended. For every radius \<open>r > 0\<close> and positive sector and stack counts
  with \<open>(stacks+1)\<cdot>(sectors+1) \<le> 2\<^sup>3\<^sup>1\<close>, when the two vectors can grow by
  \<open>6\<cdot>(stacks+1)\<cdot>(sectors+1)\<close> floats and \<open>6\<cdot>sectors\<cdot>(stacks-1)\<close> indices, the call returns
  normally (the four loops terminate by their termination proofs, no \<^verbatim>\<open>int\<close> overflows
  and no \<^verbatim>\<open>push_back\<close> fails). Its result is the initial contents of the two vectors
  followed by \<open>6\<cdot>(stacks+1)\<cdot>(sectors+1)\<close> floats and \<open>6\<cdot>sectors\<cdot>(stacks-1)\<close> indices that depend
  on \<open>(r, sectors, stacks)\<close> only: they are what the call appends to empty vectors, and
  they are the same however much further the vectors could grow. The function reads
  nothing but its arguments and writes nothing but the two vectors.
\<close>

theorem generateSphere_functional:
  assumes "0 < radius" "0 < sectors" "0 < stacks"
    "(stacks + 1) * (sectors + 1) \<le> 2147483648"
    "length vertices + 6 * nat ((stacks + 1) * (sectors + 1)) \<le> capacity"
    "length indices + nat (6 * sectors * (stacks - 1)) \<le> capacity"
  shows "returns (generateSphere capacity radius sectors stacks vertices indices) \<and>
         returns (generateSphere capacity radius sectors stacks [] []) \<and>
         generateSphere capacity radius sectors stacks vertices indices =
           Inr (vertices @ vertices_of (generateSphere capacity radius sectors stacks [] []),
                indices @ indices_of (generateSphere capacity radius sectors stacks [] [])) \<and>
         length (vertices_of (generateSphere capacity radius sectors stacks [] [])) =
           6 * nat ((stacks + 1) * (sectors + 1)) \<and>
         length (indices_of (generateSphere capacity radius sectors stacks [] [])) =
           nat (6 * sectors * (stacks - 1)) \<and>
         (\<forall>capacity'.
            length vertices + 6 * nat ((stacks + 1) * (sectors + 1)) \<le> capacity' \<and>
            length indices + nat (6 * sectors * (stacks - 1)) \<le> capacity' \<longrightarrow>
            generateSphere capacity' radius sectors stacks vertices indices =
              generateSphere capacity radius sectors stacks vertices indices)"
proof -
  have c: "1 \<le> sectors" "1 \<le> stacks" using assms(2,3) by simp_all
  have e: "length ([]::fp list) + 6 * nat ((stacks + 1) * (sectors + 1)) \<le> capacity"
    "length ([]::int list) + nat (6 * sectors * (stacks - 1)) \<le> capacity"
    using assms(5,6) by simp_all
  note g = generateSphere_result[OF c assms(4,5,6), of radius]
  note g0 = generateSphere_result[OF c assms(4) e, of radius]
  have lv: "length (sphere_vertices radius sectors stacks) = 6 * nat ((stacks + 1) * (sectors + 1))"
    using c by (intro length_sphere_vertices_pos) simp_all
  have li: "length (sphere_indices sectors stacks) = nat (6 * sectors * (stacks - 1))"
    using c by (intro length_sphere_indices_pos) simp_all
  have any: "generateSphere capacity' radius sectors stacks vertices indices =
              generateSphere capacity radius sectors stacks vertices indices"
    if "length vertices + 6 * nat ((stacks + 1) * (sectors + 1)) \<le> capacity' \<and>
        length indices + nat (6 * sectors * (stacks - 1)) \<le> capacity'" for capacity'
    using generateSphere_result[OF c assms(4), of vertices capacity' indices radius] that
    by (simp only: g)
  show ?thesis
    unfolding g g0 vertices_of_Inr indices_of_Inr append_Nil
    using lv li any[unfolded g] by (simp add: returns_Inr)
qed

theorem generateSphere_functional_witness:
  "(0::real) < 1 / 2 \<and> (0::int) < 1 \<and> (0::int) < 2 \<and>
   ((2::int) + 1) * (1 + 1) \<le> 2147483648 \<and>
   length [Finite 3, Finite 4] + 6 * nat ((2 + 1) * (1 + 1)) \<le> (50::nat) \<and>
   length [5::int] + nat (6 * 1 * (2 - 1)) \<le> (50::nat) \<and>
   returns (generateSphere 50 (1 / 2) 1 2 [Finite 3, Finite 4] [5]) \<and>
   generateSphere 50 (1 / 2) 1 2 [Finite 3, Finite 4] [5] =
     Inr ([Finite 3, Finite 4] @ vertices_of (generateSphere 50 (1 / 2) 1 2 [] []),
          [5] @ indices_of (generateSphere 50 (1 / 2) 1 2 [] [])) \<and>
   length (vertices_of (generateSphere 50 (1 / 2) 1 2 [] [])) = 36 \<and>
   length (indices_of (generateSphere 50 (1 / 2) 1 2 [] [])) = 6 \<and>
   generateSphere 38 (1 / 2) 1 2 [Finite 3, Finite 4] [5] =
     generateSphere 50 (1 / 2) 1 2 [Finite 3, Finite 4] [5]"
proof -
  have h: "(0::real) < 1 / 2" "(0::int) < 1" "(0::int) < 2"
    "((2::int) + 1) * (1 + 1) \<le> 2147483648"
    "length [Finite 3, Finite 4] + 6 * nat ((2 + 1) * (1 + 1)) \<le> (50::nat)"
    "length [5::int] + nat (6 * 1 * (2 - 1)) \<le> (50::nat)"
    by simp_all
  note t = generateSphere_functional[OF h]
  have r: "returns (generateSphere 50 (1 / 2) 1 2 [Finite 3, Finite 4] [5])"
    by (rule conjunct1[OF t])
  have a: "generateSphere 50 (1 / 2) 1 2 [Finite 3, Finite 4] [5] =
     Inr ([Finite 3, Finite 4] @ vertices_of (generateSphere 50 (1 / 2) 1 2 [] []),
          [5] @ indices_of (generateSphere 50 (1 / 2) 1 2 [] []))"
    by (rule conjunct1[OF conjunct2[OF conjunct2[OF t]]])
  have "length (vertices_of (generateSphere 50 (1 / 2) 1 2 [] [])) = 6 * nat ((2 + 1) * (1 + 1))"
    by (rule conjunct1[OF conjunct2[OF conjunct2[OF conjunct2[OF t]]]])
  then have b: "length (vertices_of (generateSphere 50 (1 / 2) 1 2 [] [])) = 36" by simp
  have "length (indices_of (generateSphere 50 (1 / 2) 1 2 [] [])) = nat (6 * 1 * (2 - 1))"
    by (rule conjunct1[OF conjunct2[OF conjunct2[OF conjunct2[OF conjunct2[OF t]]]]])
  then have c: "length (indices_of (generateSphere 50 (1 / 2) 1 2 [] [])) = 6" by simp
  have "length [Finite 3, Finite 4] + 6 * nat ((2 + 1) * (1 + 1)) \<le> (38::nat) \<and>
        length [5::int] + nat (6 * 1 * (2 - 1)) \<le> (38::nat)" by simp
  then have d: "generateSphere 38 (1 / 2) 1 2 [Finite 3, Finite 4] [5] =
     generateSphere 50 (1 / 2) 1 2 [Finite 3, Finite 4] [5]"
    by (rule mp[OF spec[OF conjunct2[OF conjunct2[OF conjunct2[OF conjunct2[OF conjunct2[OF t]]]]]]])
  show ?thesis using h r a b c d by (intro conjI)
qed

section \<open>Properties of the camera model\<close>

subsection \<open>Vector algebra\<close>

lemma dot_vscale: "dot (vscale v k) (vscale w m) = k * m * dot v w"
  by (simp add: dot_def vscale_def algebra_simps)

lemma dot_self_nonneg: "0 \<le> dot v v"
  by (simp add: dot_def)

lemma dot_normalize:
  assumes "0 < dot v v"
  shows "dot (normalize_vec v) (normalize_vec v) = 1"
proof -
  have "dot (normalize_vec v) (normalize_vec v) = (1 / sqrt (dot v v)) * (1 / sqrt (dot v v)) * dot v v"
    by (simp only: normalize_vec_def dot_vscale)
  also have "\<dots> = dot v v / (sqrt (dot v v) * sqrt (dot v v))"
    by simp
  also have "\<dots> = 1"
    using assms by simp
  finally show ?thesis .
qed

lemma dot_path_raw:
  "dot (Vec3 (a * cos t) y (a * sin t)) (Vec3 (a * cos t) y (a * sin t)) = a\<^sup>2 + y\<^sup>2"
proof -
  have "(a * cos t)\<^sup>2 + (a * sin t)\<^sup>2 = a\<^sup>2 * ((cos t)\<^sup>2 + (sin t)\<^sup>2)"
    by (simp only: power_mult_distrib distrib_left)
  then have "(a * cos t)\<^sup>2 + (a * sin t)\<^sup>2 = a\<^sup>2"
    by (simp only: sin_cos_squared_add2 mult_1_right)
  then show ?thesis
    by (simp add: dot_def power2_eq_square)
qed

lemma path_raw_nonzero:
  assumes "0 < a"
  shows "0 < dot (Vec3 (a * cos t) y (a * sin t)) (Vec3 (a * cos t) y (a * sin t))"
proof -
  have "0 < a\<^sup>2" using assms by simp
  moreover have "0 \<le> y\<^sup>2" by simp
  ultimately show ?thesis unfolding dot_path_raw by linarith
qed

lemma dot_path_point:
  assumes "0 < a"
  shows "dot (vscale (normalize_vec (Vec3 (a * cos t) y (a * sin t))) a)
             (vscale (normalize_vec (Vec3 (a * cos t) y (a * sin t))) a) = a * a"
  by (simp only: dot_vscale dot_normalize[OF path_raw_nonzero[OF assms]] mult_1_right)


subsection \<open>The orbit position\<close>

lemma planePos_plane_view:
  "planePos (plane_view s) =
     vscale (normalize_vec (Vec3 (planeAltitude s * cos (planeAngle s))
                             (sin (planeAngle s * 2) * 0.4)
                             (planeAltitude s * sin (planeAngle s))))
            (planeAltitude s)"
  by (simp add: plane_view_def Let_def)

lemma getViewMatrix_auto:
  "\<not> manualControl s \<Longrightarrow>
   getViewMatrix deltaTime s =
     (let s' = s\<lparr>planeAngle := round32 (planeAngle s + round32 (planeSpeed s * deltaTime))\<rparr>
      in (LookAt (planePos (plane_view s')) (lookTarget (plane_view s')) (up (plane_view s')), s'))"
  by (simp add: getViewMatrix_def Let_def)

lemma getViewMatrix_manual:
  "manualControl s \<Longrightarrow> snd (getViewMatrix deltaTime s) = s"
  by (simp add: getViewMatrix_def Let_def)


lemma getViewMatrix_keeps:
  "manualControl (snd (getViewMatrix deltaTime s)) = manualControl s"
  "planeAltitude (snd (getViewMatrix deltaTime s)) = planeAltitude s"
  "planeSpeed (snd (getViewMatrix deltaTime s)) = planeSpeed s"
  by (simp_all add: getViewMatrix_def Let_def)





subsection \<open>What each operation does to the orbit state\<close>

lemma toggle_manual_orbit:
  "planeAngle (toggle_manual pressed s) = planeAngle s"
  "planeSpeed (toggle_manual pressed s) = planeSpeed s"
  "planeAltitude (toggle_manual pressed s) = planeAltitude s"
  by (simp_all add: toggle_manual_def Let_def)

lemma plane_controls_angle: "planeAngle (plane_controls pressed s) = planeAngle s"
  by (simp add: plane_controls_def Let_def)

lemma globe_controls_orbit:
  "planeAngle (globe_controls pressed s) = planeAngle s"
  "planeSpeed (globe_controls pressed s) = planeSpeed s"
  "planeAltitude (globe_controls pressed s) = planeAltitude s"
  "manualControl (globe_controls pressed s) = manualControl s"
  by (simp_all add: globe_controls_def Let_def)

lemma plane_controls_manual: "manualControl (plane_controls pressed s) = manualControl s"
  by (simp add: plane_controls_def Let_def)

lemma processInput_angle: "planeAngle (processInput pressed s) = planeAngle s"
  by (simp add: processInput_def Let_def plane_controls_angle globe_controls_orbit toggle_manual_orbit)

lemma processInput_manual_orbit:
  assumes "manualControl (processInput pressed s)"
  shows "planeSpeed (processInput pressed s) = planeSpeed s"
    and "planeAltitude (processInput pressed s) = planeAltitude s"
  using assms
  by (simp_all add: processInput_def Let_def plane_controls_manual globe_controls_orbit
      toggle_manual_orbit split: if_splits)

lemma mouse_callback_orbit:
  "planeAngle (mouse_callback xpos ypos s) = planeAngle s"
  "planeSpeed (mouse_callback xpos ypos s) = planeSpeed s"
  "planeAltitude (mouse_callback xpos ypos s) = planeAltitude s"
  "manualControl (mouse_callback xpos ypos s) = manualControl s"
  by (simp_all add: mouse_callback_def Let_def)

lemma mouse_button_callback_orbit:
  "planeAngle (mouse_button_callback button action s) = planeAngle s"
  "planeSpeed (mouse_button_callback button action s) = planeSpeed s"
  "planeAltitude (mouse_button_callback button action s) = planeAltitude s"
  "manualControl (mouse_button_callback button action s) = manualControl s"
  by (simp_all add: mouse_button_callback_def)

lemma scroll_callback_orbit:
  "planeAngle (scroll_callback xoffset yoffset s) = planeAngle s"
  "planeSpeed (scroll_callback xoffset yoffset s) = planeSpeed s"
  "planeAltitude (scroll_callback xoffset yoffset s) = planeAltitude s"
  "manualControl (scroll_callback xoffset yoffset s) = manualControl s"
  by (simp_all add: scroll_callback_def Let_def)

lemma getViewMatrix_angle:
  "planeAngle (snd (getViewMatrix deltaTime s)) =
     (if manualControl s then planeAngle s else round32 (planeAngle s + round32 (planeSpeed s * deltaTime)))"
  by (simp add: getViewMatrix_def Let_def)

lemma snd_render_frame:
  "snd (render_frame pressed deltaTime s) = snd (getViewMatrix deltaTime (processInput pressed s))"
  by (simp add: render_frame_def Let_def split_beta)

lemma step_Frame:
  "step s (Frame pressed deltaTime) = snd (getViewMatrix deltaTime (processInput pressed s))"
  by (simp add: snd_render_frame)

lemma step_angle:
  "planeAngle (step s e) =
     (case e of
        Frame pressed deltaTime \<Rightarrow>
          if manualControl (processInput pressed s) then planeAngle s
          else round32 (planeAngle s + round32 (planeSpeed (processInput pressed s) * deltaTime))
      | _ \<Rightarrow> planeAngle s)"
  by (cases e)
     (simp_all add: snd_render_frame getViewMatrix_angle processInput_angle mouse_callback_orbit
        mouse_button_callback_orbit scroll_callback_orbit)

lemma getViewMatrix_angle_error:
  assumes "\<not> manualControl s"
  shows "\<bar>planeAngle (snd (getViewMatrix deltaTime s)) - (planeAngle s + planeSpeed s * deltaTime)\<bar>
         \<le> ulp32 (planeAngle s + round32 (planeSpeed s * deltaTime)) / 2 +
            ulp32 (planeSpeed s * deltaTime) / 2"
proof -
  let ?p = "planeSpeed s * deltaTime"
  have "\<bar>round32 (planeAngle s + round32 ?p) - (planeAngle s + round32 ?p)\<bar>
          \<le> ulp32 (planeAngle s + round32 ?p) / 2"
    by (rule round32_error)
  moreover have "\<bar>round32 ?p - ?p\<bar> \<le> ulp32 ?p / 2" by (rule round32_error)
  ultimately have "\<bar>round32 (planeAngle s + round32 ?p) - (planeAngle s + ?p)\<bar>
          \<le> ulp32 (planeAngle s + round32 ?p) / 2 + ulp32 ?p / 2"
    by linarith
  then show ?thesis using assms by (simp only: getViewMatrix_angle if_False)
qed

lemma round32_small_product: "\<bar>round32 (3 / 10 * (16 / 1000)) :: real\<bar> < 1 / 32"
proof -
  have "\<bar>3 / 10 * (16 / 1000) :: real\<bar> < 2 powr real_of_int 0" by simp
  then have "\<bar>round32 (3 / 10 * (16 / 1000)) - 3 / 10 * (16 / 1000)\<bar> \<le> 2 powr real_of_int (0 - 25)"
    by (rule round32_error_below) simp
  moreover have "2 powr real_of_int (0 - 25) = (1 / 2 ^ 25 :: real)"
    by (simp add: powr_minus_divide)
  ultimately show ?thesis by simp
qed

text \<open>
  Claim C7, as the specification states it, says that every automatic view query
  advances the angle by exactly \<open>speed\<cdot>\<Delta>t\<close>, without bound. At the angle 1000000, with the
  initial speed 0.3 and an elapsed time of 16 ms, the increment 0.0048 is less than half
  the distance 1/16 between neighbouring \<^verbatim>\<open>float\<close> values at that magnitude, and the
  \<^verbatim>\<open>float\<close> sum is the angle itself: the query does not advance the orbit.
\<close>

theorem orbit_angle_absorbed:
  "\<not> manualControl (init_camera\<lparr>planeAngle := 1000000\<rparr>) \<and>
   planeSpeed (init_camera\<lparr>planeAngle := 1000000\<rparr>) * 0.016 = 0.0048 \<and>
   planeAngle (snd (getViewMatrix 0.016 (init_camera\<lparr>planeAngle := 1000000\<rparr>))) = 1000000"
proof -
  let ?s = "init_camera\<lparr>planeAngle := 1000000\<rparr>"
  have m: "\<not> manualControl ?s" by (simp add: init_camera_def)
  have p: "planeSpeed ?s * 0.016 = 0.0048" by (simp add: init_camera_def)
  have "planeAngle (snd (getViewMatrix 0.016 ?s)) =
        round32 (1000000 + round32 (3 / 10 * (16 / 1000)))"
    by (simp add: getViewMatrix_angle init_camera_def)
  also have "\<dots> = 1000000"
    by (rule round32_absorb_million[OF round32_small_product])
  finally show ?thesis using m p by (intro conjI)
qed

text \<open>
  Claim C7, as amended. In automatic mode a view query with elapsed time \<open>\<Delta>t\<close> sets the
  orbit angle to the \<^verbatim>\<open>float\<close> sum of the angle and the \<^verbatim>\<open>float\<close> product \<open>speed\<cdot>\<Delta>t\<close>: the
  product rounded to the nearest \<^verbatim>\<open>float\<close>, added to the angle, and the sum rounded
  again (both below the overflow threshold). The new angle differs from
  \<open>angle + speed\<cdot>\<Delta>t\<close> by at most half the distance between neighbouring \<^verbatim>\<open>float\<close> values
  at the sum plus half that distance at the product; it is the old angle when the
  product is absorbed. Nothing else changes the angle: a view query in manual mode,
  \<^verbatim>\<open>processInput\<close> and the three callbacks leave it as it is, and a loop pass changes it
  only through its view query. The angle is not wrapped or clamped.
\<close>

theorem orbit_angle_transition:
  "(\<not> manualControl s \<and> \<bar>planeSpeed s * deltaTime\<bar> < overflow_threshold \<and>
    \<bar>planeAngle s + round32 (planeSpeed s * deltaTime)\<bar> < overflow_threshold \<longrightarrow>
      planeAngle (snd (getViewMatrix deltaTime s)) =
        round32 (planeAngle s + round32 (planeSpeed s * deltaTime)) \<and>
      \<bar>planeAngle (snd (getViewMatrix deltaTime s)) - (planeAngle s + planeSpeed s * deltaTime)\<bar>
        \<le> ulp32 (planeAngle s + round32 (planeSpeed s * deltaTime)) / 2 +
           ulp32 (planeSpeed s * deltaTime) / 2) \<and>
   (manualControl s \<longrightarrow> planeAngle (snd (getViewMatrix deltaTime s)) = planeAngle s) \<and>
   planeAngle (processInput pressed s) = planeAngle s \<and>
   planeAngle (mouse_callback xpos ypos s) = planeAngle s \<and>
   planeAngle (mouse_button_callback button action s) = planeAngle s \<and>
   planeAngle (scroll_callback xoffset yoffset s) = planeAngle s \<and>
   planeAngle (step s e) =
     (case e of
        Frame pressed deltaTime \<Rightarrow>
          planeAngle (snd (getViewMatrix deltaTime (processInput pressed s)))
      | _ \<Rightarrow> planeAngle s)"
proof -
  have st: "planeAngle (step s e) =
     (case e of
        Frame pressed deltaTime \<Rightarrow>
          planeAngle (snd (getViewMatrix deltaTime (processInput pressed s)))
      | _ \<Rightarrow> planeAngle s)"
    by (cases e)
       (simp_all add: snd_render_frame mouse_callback_orbit mouse_button_callback_orbit
          scroll_callback_orbit)
  show ?thesis
    using st getViewMatrix_angle_error[of s deltaTime]
    by (simp add: getViewMatrix_angle processInput_angle mouse_callback_orbit
        mouse_button_callback_orbit scroll_callback_orbit)
qed

theorem orbit_angle_transition_witness:
  "\<not> manualControl (init_camera\<lparr>planeSpeed := 2\<rparr>) \<and>
   \<bar>planeSpeed (init_camera\<lparr>planeSpeed := 2\<rparr>) * 3\<bar> < overflow_threshold \<and>
   \<bar>planeAngle (init_camera\<lparr>planeSpeed := 2\<rparr>) +
      round32 (planeSpeed (init_camera\<lparr>planeSpeed := 2\<rparr>) * 3)\<bar> < overflow_threshold \<and>
   planeAngle (snd (getViewMatrix 3 (init_camera\<lparr>planeSpeed := 2\<rparr>))) = 6 \<and>
   manualControl (init_camera\<lparr>manualControl := True\<rparr>) \<and>
   planeAngle (snd (getViewMatrix 3 (init_camera\<lparr>manualControl := True\<rparr>))) = 0"
proof -
  let ?s = "init_camera\<lparr>planeSpeed := 2\<rparr>"
  have six: "round32 6 = 6" using round32_of_int[of 6] by simp
  have h: "\<not> manualControl ?s" "\<bar>planeSpeed ?s * 3\<bar> < overflow_threshold"
    "\<bar>planeAngle ?s + round32 (planeSpeed ?s * 3)\<bar> < overflow_threshold"
    by (simp_all add: init_camera_def six overflow_threshold_def)
  have m: "manualControl (init_camera\<lparr>manualControl := True\<rparr>)" by simp
  note t = orbit_angle_transition[where s = ?s and deltaTime = 3]
  note u = orbit_angle_transition[where s = "init_camera\<lparr>manualControl := True\<rparr>"
              and deltaTime = 3]
  have "planeAngle (snd (getViewMatrix 3 ?s)) = round32 (planeAngle ?s + round32 (planeSpeed ?s * 3))"
    by (rule conjunct1[OF mp[OF conjunct1[OF t] conjI[OF h(1) conjI[OF h(2) h(3)]]]])
  then have a: "planeAngle (snd (getViewMatrix 3 ?s)) = 6"
    by (simp add: init_camera_def six)
  have "planeAngle (snd (getViewMatrix 3 (init_camera\<lparr>manualControl := True\<rparr>))) =
        planeAngle (init_camera\<lparr>manualControl := True\<rparr>)"
    by (rule mp[OF conjunct1[OF conjunct2[OF u]] m])
  then have b: "planeAngle (snd (getViewMatrix 3 (init_camera\<lparr>manualControl := True\<rparr>))) = 0"
    by (simp add: init_camera_def)
  show ?thesis using h m a b by (intro conjI)
qed

subsection \<open>Manual mode\<close>

lemma step_manual_orbit:
  assumes "case e of Frame pressed deltaTime \<Rightarrow> manualControl (processInput pressed s) | _ \<Rightarrow> True"
  shows "planeAngle (step s e) = planeAngle s \<and> planeSpeed (step s e) = planeSpeed s \<and>
         planeAltitude (step s e) = planeAltitude s"
proof (cases e)
  case (Frame pressed deltaTime)
  then have m: "manualControl (processInput pressed s)" using assms by simp
  then have "step s e = processInput pressed s"
    unfolding Frame step_Frame by (rule getViewMatrix_manual)
  then show ?thesis using m by (simp add: processInput_angle processInput_manual_orbit)
qed (simp_all add: mouse_callback_orbit mouse_button_callback_orbit scroll_callback_orbit)

lemma run_Cons: "run s (e # events) = run (step s e) events"
  by (simp add: run_def)

lemma manual_frames_orbit:
  "manual_frames s events \<Longrightarrow>
   planeAngle (run s events) = planeAngle s \<and> planeSpeed (run s events) = planeSpeed s \<and>
   planeAltitude (run s events) = planeAltitude s"
proof (induction s events rule: manual_frames.induct)
  case (1 s)
  then show ?case by (simp add: run_def)
next
  case (2 s pressed deltaTime rest)
  then have "manualControl (processInput pressed s)"
    and r: "manual_frames (step s (Frame pressed deltaTime)) rest" by simp_all
  then have "planeAngle (step s (Frame pressed deltaTime)) = planeAngle s \<and>
             planeSpeed (step s (Frame pressed deltaTime)) = planeSpeed s \<and>
             planeAltitude (step s (Frame pressed deltaTime)) = planeAltitude s"
    by (intro step_manual_orbit) simp
  then show ?case using 2(1)[OF r] by (simp add: run_Cons)
next
  case (3 s xpos ypos rest)
  then show ?case by (simp add: run_Cons mouse_callback_orbit)
next
  case (4 s button action rest)
  then show ?case by (simp add: run_Cons mouse_button_callback_orbit)
next
  case (5 s xoffset yoffset rest)
  then show ?case by (simp add: run_Cons scroll_callback_orbit)
qed

text \<open>
  Claim C9. In manual mode the view query returns the camera state it was given. Over
  any run of loop passes and callbacks in which every pass is spent in manual mode, the
  orbit angle, speed and altitude keep their values, so the first pass back in automatic
  mode advances the orbit from the angle at which it was left.
\<close>

theorem manual_mode_preserves_orbit:
  "(manualControl s \<longrightarrow> snd (getViewMatrix deltaTime s) = s) \<and>
   (manual_frames s events \<longrightarrow>
      planeAngle (run s events) = planeAngle s \<and>
      planeSpeed (run s events) = planeSpeed s \<and>
      planeAltitude (run s events) = planeAltitude s) \<and>
   (manual_frames s events \<and> \<not> manualControl (processInput pressed (run s events)) \<longrightarrow>
      planeAngle (step (run s events) (Frame pressed deltaTime)) =
        round32 (planeAngle s + round32 (planeSpeed (processInput pressed (run s events)) * deltaTime)))"
proof (intro conjI impI)
  assume "manualControl s"
  then show "snd (getViewMatrix deltaTime s) = s" by (rule getViewMatrix_manual)
next
  assume "manual_frames s events"
  then show "planeAngle (run s events) = planeAngle s"
    "planeSpeed (run s events) = planeSpeed s"
    "planeAltitude (run s events) = planeAltitude s"
    using manual_frames_orbit by blast+
next
  assume a: "manual_frames s events \<and> \<not> manualControl (processInput pressed (run s events))"
  then have "planeAngle (run s events) = planeAngle s" using manual_frames_orbit by blast
  then show "planeAngle (step (run s events) (Frame pressed deltaTime)) =
        round32 (planeAngle s + round32 (planeSpeed (processInput pressed (run s events)) * deltaTime))"
    using a by (simp add: snd_render_frame getViewMatrix_angle processInput_angle)
qed

theorem manual_mode_preserves_orbit_witness:
  "manualControl (init_camera\<lparr>planeAngle := 1, manualControl := True\<rparr>) \<and>
   snd (getViewMatrix 10 (init_camera\<lparr>planeAngle := 1, manualControl := True\<rparr>)) =
     init_camera\<lparr>planeAngle := 1, manualControl := True\<rparr> \<and>
   manual_frames (init_camera\<lparr>planeAngle := 1, manualControl := True\<rparr>)
     [Frame (\<lambda>k. k = KEY_UP) 0.016, Scroll 0 1] \<and>
   planeAngle (run (init_camera\<lparr>planeAngle := 1, manualControl := True\<rparr>)
     [Frame (\<lambda>k. k = KEY_UP) 0.016, Scroll 0 1]) = 1 \<and>
   planeAngle (step (run (init_camera\<lparr>planeAngle := 1, manualControl := True\<rparr>)
     [Frame (\<lambda>k. k = KEY_UP) 0.016, Scroll 0 1]) (Frame (\<lambda>k. k = KEY_SPACE) 10)) = 4"
proof -
  let ?s = "init_camera\<lparr>planeAngle := 1, manualControl := True\<rparr>"
  let ?evs = "[Frame (\<lambda>k. k = KEY_UP) 0.016, Scroll 0 1]"
  let ?sp = "\<lambda>k. k = KEY_SPACE"
  note t = manual_mode_preserves_orbit[where s = ?s and events = ?evs and deltaTime = 10
      and pressed = ?sp]
  have m: "manualControl ?s" by simp
  have v: "snd (getViewMatrix 10 ?s) = ?s" by (rule mp[OF conjunct1[OF t] m])
  have f: "manual_frames ?s ?evs"
    by (simp add: processInput_def toggle_manual_def globe_controls_def Let_def init_camera_def)
  have r: "planeAngle (run ?s ?evs) = planeAngle ?s"
    by (rule conjunct1[OF mp[OF conjunct1[OF conjunct2[OF t]] f]])
  have r': "planeAngle (run ?s ?evs) = 1" by (simp only: r) simp
  have run: "run ?s ?evs = init_camera\<lparr>planeAngle := 1, manualControl := True,
               globeRotationX := - 0.02, cameraDistance := 2.9\<rparr>"
    by (simp add: run_def snd_render_frame getViewMatrix_def processInput_def toggle_manual_def
        globe_controls_def scroll_callback_def Let_def init_camera_def)
  have n: "\<not> manualControl (processInput ?sp (run ?s ?evs))"
    unfolding run
    by (simp add: processInput_def toggle_manual_def plane_controls_def Let_def init_camera_def)
  have sp: "planeSpeed (processInput ?sp (run ?s ?evs)) = 0.3"
    unfolding run
    by (simp add: processInput_def toggle_manual_def plane_controls_def Let_def init_camera_def)
  have r34: "round32 3 = 3" "round32 4 = 4"
    using round32_of_int[of 3] round32_of_int[of 4] by simp_all
  have "planeAngle (step (run ?s ?evs) (Frame ?sp 10)) =
        round32 (planeAngle ?s + round32 (planeSpeed (processInput ?sp (run ?s ?evs)) * 10))"
    by (rule mp[OF conjunct2[OF conjunct2[OF t]] conjI[OF f n]])
  then have a: "planeAngle (step (run ?s ?evs) (Frame ?sp 10)) = 4"
    by (simp only: sp) (simp add: r34)
  show ?thesis using m v f r' a by (intro conjI)
qed

text \<open>
  Claim C10. In both modes the view position computed for the shader after the view
  query equals the eye position passed to \<^verbatim>\<open>lookAt\<close> in that query; in a loop pass, the
  \<^verbatim>\<open>viewPos\<close> uniform is the eye of the pass's view.
\<close>

theorem view_position_is_eye:
  "getViewPosition (snd (getViewMatrix deltaTime s)) = eye (fst (getViewMatrix deltaTime s)) \<and>
   snd (fst (render_frame pressed deltaTime s)) = eye (fst (fst (render_frame pressed deltaTime s)))"
proof -
  have e: "getViewPosition (snd (getViewMatrix deltaTime s)) = eye (fst (getViewMatrix deltaTime s))"
    for s
    by (cases "manualControl s")
       (simp_all add: getViewMatrix_def getViewPosition_def Let_def planePos_plane_view)
  show ?thesis using e[of "processInput pressed s"] e[of s]
    by (simp add: render_frame_def Let_def split_beta)
qed

subsection \<open>Parameter ranges\<close>

lemma in_range_init: "in_range init_camera"
  by (simp add: in_range_def init_camera_def)

lemma toggle_manual_params:
  "planeSpeed (toggle_manual pressed s) = planeSpeed s"
  "planeAltitude (toggle_manual pressed s) = planeAltitude s"
  "cameraAngleY (toggle_manual pressed s) = cameraAngleY s"
  "cameraDistance (toggle_manual pressed s) = cameraDistance s"
  by (simp_all add: toggle_manual_def Let_def)

lemma plane_controls_speed:
  "planeSpeed (plane_controls pressed s) =
     (let v = planeSpeed s + (if pressed KEY_UP then 0.01 else 0)
                           - (if pressed KEY_DOWN then 0.01 else 0);
          v = (if v < 0 then 0 else v)
      in if v > 2 then 2 else v)"
  by (simp add: plane_controls_def Let_def)

lemma plane_controls_altitude:
  "planeAltitude (plane_controls pressed s) =
     (let a = planeAltitude s - (if pressed KEY_LEFT then 0.01 else 0)
                              + (if pressed KEY_RIGHT then 0.01 else 0);
          a = (if a < 1.05 then 1.05 else a)
      in if a > 2 then 2 else a)"
  by (simp add: plane_controls_def Let_def)

lemma plane_controls_others:
  "cameraAngleY (plane_controls pressed s) = cameraAngleY s"
  "cameraDistance (plane_controls pressed s) = cameraDistance s"
  by (simp_all add: plane_controls_def Let_def)

lemma globe_controls_params:
  "cameraAngleY (globe_controls pressed s) = cameraAngleY s"
  "cameraDistance (globe_controls pressed s) = cameraDistance s"
  by (simp_all add: globe_controls_def Let_def)

lemma clamp_range:
  fixes lo hi v :: real
  assumes "lo \<le> hi"
  shows "lo \<le> (let v = (if v < lo then lo else v) in if v > hi then hi else v)"
    and "(let v = (if v < lo then lo else v) in if v > hi then hi else v) \<le> hi"
  using assms by (simp_all add: Let_def)

lemma plane_controls_speed_range:
  "0 \<le> planeSpeed (plane_controls pressed s)" "planeSpeed (plane_controls pressed s) \<le> 2"
  unfolding plane_controls_speed
  using clamp_range[of 0 2 "planeSpeed s + (if pressed KEY_UP then 0.01 else 0)
                           - (if pressed KEY_DOWN then 0.01 else 0)"]
  by (simp_all add: Let_def)

lemma plane_controls_altitude_range:
  "1.05 \<le> planeAltitude (plane_controls pressed s)"
  "planeAltitude (plane_controls pressed s) \<le> 2"
  unfolding plane_controls_altitude
  using clamp_range[of "1.05" 2 "planeAltitude s - (if pressed KEY_LEFT then 0.01 else 0)
                              + (if pressed KEY_RIGHT then 0.01 else 0)"]
  by (simp_all add: Let_def)

lemma in_range_plane_controls:
  assumes "- 1.5 \<le> cameraAngleY s" "cameraAngleY s \<le> 1.5"
    "1.5 \<le> cameraDistance s" "cameraDistance s \<le> 10"
  shows "in_range (plane_controls pressed s)"
  unfolding in_range_def plane_controls_others
  using assms plane_controls_speed_range[of pressed s]
    plane_controls_altitude_range[of pressed s]
  by (intro conjI)

lemma in_range_processInput: "in_range s \<Longrightarrow> in_range (processInput pressed s)"
proof -
  assume r: "in_range s"
  let ?t = "toggle_manual pressed s"
  have t: "in_range ?t" using r by (simp add: in_range_def toggle_manual_params)
  show ?thesis
  proof (cases "manualControl ?t")
    case True
    then have "processInput pressed s = globe_controls pressed ?t"
      by (simp add: processInput_def Let_def)
    then show ?thesis using t
      by (simp add: in_range_def globe_controls_params globe_controls_orbit)
  next
    case False
    then have "processInput pressed s = plane_controls pressed ?t"
      by (simp add: processInput_def Let_def)
    moreover from t have "- 1.5 \<le> cameraAngleY ?t" "cameraAngleY ?t \<le> 1.5"
      "1.5 \<le> cameraDistance ?t" "cameraDistance ?t \<le> 10"
      by (simp_all add: in_range_def)
    then have "in_range (plane_controls pressed ?t)"
      by (rule in_range_plane_controls)
    ultimately show ?thesis by simp
  qed
qed

lemma mouse_callback_pitch:
  "cameraAngleY (mouse_callback xpos ypos s) =
     (if \<not> mousePressed s \<or> \<not> manualControl s then cameraAngleY s
      else let y = cameraAngleY s + (if firstMouse s then 0 else lastY s - ypos) * 0.01;
               y = (if y > 1.5 then 1.5 else y)
           in if y < - 1.5 then - 1.5 else y)"
  by (simp add: mouse_callback_def Let_def field_simps)

lemma mouse_callback_others:
  "cameraDistance (mouse_callback xpos ypos s) = cameraDistance s"
  by (simp add: mouse_callback_def Let_def)

lemma in_range_mouse_callback: "in_range s \<Longrightarrow> in_range (mouse_callback xpos ypos s)"
  by (simp add: in_range_def mouse_callback_pitch mouse_callback_others mouse_callback_orbit
      Let_def)

lemma in_range_mouse_button_callback:
  "in_range s \<Longrightarrow> in_range (mouse_button_callback button action s)"
  by (simp add: in_range_def mouse_button_callback_def)

lemma scroll_callback_distance:
  "cameraDistance (scroll_callback xoffset yoffset s) =
     (let d = cameraDistance s - yoffset * 0.1;
          d = (if d < 1.5 then 1.5 else d)
      in if d > 10 then 10 else d)"
  by (simp add: scroll_callback_def Let_def)

lemma scroll_callback_others:
  "cameraAngleY (scroll_callback xoffset yoffset s) = cameraAngleY s"
  by (simp add: scroll_callback_def Let_def)

lemma in_range_scroll_callback: "in_range s \<Longrightarrow> in_range (scroll_callback xoffset yoffset s)"
  by (simp add: in_range_def scroll_callback_distance scroll_callback_others
      scroll_callback_orbit Let_def)

lemma in_range_getViewMatrix: "in_range s \<Longrightarrow> in_range (snd (getViewMatrix deltaTime s))"
  by (simp add: in_range_def getViewMatrix_def Let_def)

lemma in_range_step: "in_range s \<Longrightarrow> in_range (step s e)"
  by (cases e)
     (simp_all add: snd_render_frame in_range_getViewMatrix in_range_processInput
        in_range_mouse_callback in_range_mouse_button_callback in_range_scroll_callback)

lemma in_range_run: "in_range s \<Longrightarrow> in_range (run s events)"
  by (induction events arbitrary: s) (simp_all add: run_def in_range_step)

lemma processInput_speed:
  "planeSpeed (processInput pressed s) =
     (if manualControl (processInput pressed s) then planeSpeed s
      else planeSpeed (plane_controls pressed (toggle_manual pressed s)))"
  by (simp add: processInput_def Let_def globe_controls_orbit toggle_manual_orbit
      plane_controls_manual)

lemma processInput_altitude:
  "planeAltitude (processInput pressed s) =
     (if manualControl (processInput pressed s) then planeAltitude s
      else planeAltitude (plane_controls pressed (toggle_manual pressed s)))"
  by (simp add: processInput_def Let_def globe_controls_orbit toggle_manual_orbit
      plane_controls_manual)

lemma pinned_speed:
  "planeSpeed s = 2 \<Longrightarrow> pressed KEY_UP \<Longrightarrow> \<not> pressed KEY_DOWN \<Longrightarrow>
     planeSpeed (processInput pressed s) = 2"
  "planeSpeed s = 0 \<Longrightarrow> pressed KEY_DOWN \<Longrightarrow> \<not> pressed KEY_UP \<Longrightarrow>
     planeSpeed (processInput pressed s) = 0"
  by (simp_all add: processInput_speed plane_controls_speed toggle_manual_params Let_def)

lemma pinned_altitude:
  "planeAltitude s = 2 \<Longrightarrow> pressed KEY_RIGHT \<Longrightarrow> \<not> pressed KEY_LEFT \<Longrightarrow>
     planeAltitude (processInput pressed s) = 2"
  "planeAltitude s = 1.05 \<Longrightarrow> pressed KEY_LEFT \<Longrightarrow> \<not> pressed KEY_RIGHT \<Longrightarrow>
     planeAltitude (processInput pressed s) = 1.05"
  by (simp_all add: processInput_altitude plane_controls_altitude toggle_manual_params Let_def)

lemma pinned_pitch:
  "cameraAngleY s = 1.5 \<Longrightarrow> firstMouse s \<or> ypos \<le> lastY s \<Longrightarrow>
     cameraAngleY (mouse_callback xpos ypos s) = 1.5"
  "cameraAngleY s = - 1.5 \<Longrightarrow> firstMouse s \<or> lastY s \<le> ypos \<Longrightarrow>
     cameraAngleY (mouse_callback xpos ypos s) = - 1.5"
  by (auto simp add: mouse_callback_pitch Let_def)

lemma pinned_distance:
  "cameraDistance s = 10 \<Longrightarrow> yoffset \<le> 0 \<Longrightarrow>
     cameraDistance (scroll_callback xoffset yoffset s) = 10"
  "cameraDistance s = 1.5 \<Longrightarrow> 0 \<le> yoffset \<Longrightarrow>
     cameraDistance (scroll_callback xoffset yoffset s) = 1.5"
  by (auto simp add: scroll_callback_distance Let_def)

lemma pi_gt_three: "3 < pi"
proof -
  have s0: "0 \<le> sin (pi / 12)"
    by (intro sin_ge_zero) simp_all
  have "sin (pi / 12) \<le> pi / 12"
    by (intro sin_x_le_x) simp
  then have "(sin (pi / 12))\<^sup>2 \<le> (pi / 12)\<^sup>2"
    using s0 by (intro power_mono)
  moreover have "cos (pi / 6) = 1 - 2 * (sin (pi / 12))\<^sup>2"
    using cos_double_sin[of "pi / 12"] by simp
  ultimately have "1 - 2 * (pi / 12)\<^sup>2 \<le> sqrt 3 / 2"
    by (simp add: cos_30)
  moreover have "sqrt 3 < 7 / 4"
    by (intro real_less_lsqrt) (simp_all add: power2_eq_square)
  ultimately have "1 - 2 * (pi / 12)\<^sup>2 < 7 / 8" by linarith
  then have p: "9 < pi\<^sup>2" by (simp add: power2_eq_square)
  show ?thesis
  proof (rule ccontr)
    assume "\<not> 3 < pi"
    then have "pi\<^sup>2 \<le> 3\<^sup>2" by (intro power_mono) simp_all
    then show False using p by simp
  qed
qed

lemma pitch_bound: "(1.5::real) < pi / 2"
  using pi_gt_three by simp

text \<open>
  Claim C6. Every state reached from the initial one by loop passes and callbacks has
  speed in \<open>[0, 2]\<close>, altitude in \<open>[1.05, 2]\<close>, pitch in \<open>[-1.5, 1.5]\<close> and distance in
  \<open>[1.5, 10]\<close>, and every step keeps these ranges; \<open>1.5 < \<pi>/2\<close>. A parameter at a bound
  stays there under a further event in the same direction: UP at speed 2, DOWN at speed
  0, RIGHT at altitude 2, LEFT at altitude 1.05 (the opposite key not held), a cursor
  move upwards at pitch 1.5 or downwards at pitch -1.5, a scroll that zooms out at
  distance 10 or in at distance 1.5. Every operation is total: it returns a state for
  every input.
\<close>

theorem parameters_clamped:
  "in_range init_camera \<and>
   in_range (run init_camera events) \<and>
   (in_range s \<longrightarrow> in_range (step s e)) \<and>
   (1.5::real) < pi / 2 \<and>
   (planeSpeed s = 2 \<and> pressed KEY_UP \<and> \<not> pressed KEY_DOWN \<longrightarrow>
      planeSpeed (processInput pressed s) = 2) \<and>
   (planeSpeed s = 0 \<and> pressed KEY_DOWN \<and> \<not> pressed KEY_UP \<longrightarrow>
      planeSpeed (processInput pressed s) = 0) \<and>
   (planeAltitude s = 2 \<and> pressed KEY_RIGHT \<and> \<not> pressed KEY_LEFT \<longrightarrow>
      planeAltitude (processInput pressed s) = 2) \<and>
   (planeAltitude s = 1.05 \<and> pressed KEY_LEFT \<and> \<not> pressed KEY_RIGHT \<longrightarrow>
      planeAltitude (processInput pressed s) = 1.05) \<and>
   (cameraAngleY s = 1.5 \<and> (firstMouse s \<or> ypos \<le> lastY s) \<longrightarrow>
      cameraAngleY (mouse_callback xpos ypos s) = 1.5) \<and>
   (cameraAngleY s = - 1.5 \<and> (firstMouse s \<or> lastY s \<le> ypos) \<longrightarrow>
      cameraAngleY (mouse_callback xpos ypos s) = - 1.5) \<and>
   (cameraDistance s = 10 \<and> yoffset \<le> 0 \<longrightarrow>
      cameraDistance (scroll_callback xoffset yoffset s) = 10) \<and>
   (cameraDistance s = 1.5 \<and> 0 \<le> yoffset \<longrightarrow>
      cameraDistance (scroll_callback xoffset yoffset s) = 1.5)"
proof (intro conjI impI)
  show "in_range init_camera" by (rule in_range_init)
  show "in_range (run init_camera events)" by (rule in_range_run[OF in_range_init])
  show "in_range (step s e)" if "in_range s" using that by (rule in_range_step)
  show "(1.5::real) < pi / 2" by (rule pitch_bound)
  show "planeSpeed (processInput pressed s) = 2"
    if "planeSpeed s = 2 \<and> pressed KEY_UP \<and> \<not> pressed KEY_DOWN"
    using that by (intro pinned_speed(1)) simp_all
  show "planeSpeed (processInput pressed s) = 0"
    if "planeSpeed s = 0 \<and> pressed KEY_DOWN \<and> \<not> pressed KEY_UP"
    using that by (intro pinned_speed(2)) simp_all
  show "planeAltitude (processInput pressed s) = 2"
    if "planeAltitude s = 2 \<and> pressed KEY_RIGHT \<and> \<not> pressed KEY_LEFT"
    using that by (intro pinned_altitude(1)) simp_all
  show "planeAltitude (processInput pressed s) = 1.05"
    if "planeAltitude s = 1.05 \<and> pressed KEY_LEFT \<and> \<not> pressed KEY_RIGHT"
    using that by (intro pinned_altitude(2)) simp_all
  show "cameraAngleY (mouse_callback xpos ypos s) = 1.5"
    if "cameraAngleY s = 1.5 \<and> (firstMouse s \<or> ypos \<le> lastY s)"
    using that by (intro pinned_pitch(1)) simp_all
  show "cameraAngleY (mouse_callback xpos ypos s) = - 1.5"
    if "cameraAngleY s = - 1.5 \<and> (firstMouse s \<or> lastY s \<le> ypos)"
    using that by (intro pinned_pitch(2)) simp_all
  show "cameraDistance (scroll_callback xoffset yoffset s) = 10"
    if "cameraDistance s = 10 \<and> yoffset \<le> 0"
    using that by (intro pinned_distance(1)) simp_all
  show "cameraDistance (scroll_callback xoffset yoffset s) = 1.5"
    if "cameraDistance s = 1.5 \<and> 0 \<le> yoffset"
    using that by (intro pinned_distance(2)) simp_all
qed

theorem parameters_clamped_witness:
  "in_range (run init_camera [Frame (\<lambda>k. k = KEY_RIGHT) 0.016, Scroll 0 (- 100)]) \<and>
   in_range init_camera \<and>
   in_range (step init_camera (Scroll 0 100)) \<and>
   planeSpeed (processInput (\<lambda>k. k = KEY_UP) (init_camera\<lparr>planeSpeed := 2\<rparr>)) = 2 \<and>
   planeAltitude (processInput (\<lambda>k. k = KEY_LEFT) init_camera) = 1.05 \<and>
   cameraAngleY (mouse_callback 0 100
     (init_camera\<lparr>manualControl := True, mousePressed := True, firstMouse := False,
        cameraAngleY := 1.5\<rparr>)) = 1.5 \<and>
   cameraDistance (scroll_callback 0 (- 1) (init_camera\<lparr>cameraDistance := 10\<rparr>)) = 10"
proof -
  let ?s2 = "init_camera\<lparr>manualControl := True, mousePressed := True, firstMouse := False,
        cameraAngleY := 1.5\<rparr>"
  note t0 = parameters_clamped[where events = "[Frame (\<lambda>k. k = KEY_RIGHT) 0.016, Scroll 0 (- 100)]"
      and s = init_camera and e = "Scroll 0 100" and pressed = "\<lambda>k. k = KEY_LEFT"]
  note t1 = parameters_clamped[where s = "init_camera\<lparr>planeSpeed := 2\<rparr>"
      and pressed = "\<lambda>k. k = KEY_UP"]
  note t2 = parameters_clamped[where s = ?s2 and xpos = 0 and ypos = 100]
  note t3 = parameters_clamped[where s = "init_camera\<lparr>cameraDistance := 10\<rparr>"
      and xoffset = 0 and yoffset = "- 1"]
  have a: "in_range (run init_camera [Frame (\<lambda>k. k = KEY_RIGHT) 0.016, Scroll 0 (- 100)])"
    by (rule conjunct1[OF conjunct2[OF t0]])
  have b: "in_range init_camera" by (rule conjunct1[OF t0])
  have c: "in_range (step init_camera (Scroll 0 100))"
    by (rule mp[OF conjunct1[OF conjunct2[OF conjunct2[OF t0]]] b])
  have "planeSpeed (init_camera\<lparr>planeSpeed := 2\<rparr>) = 2 \<and> (KEY_UP = KEY_UP) \<and> \<not> (KEY_DOWN = KEY_UP)"
    by simp
  then have d: "planeSpeed (processInput (\<lambda>k. k = KEY_UP) (init_camera\<lparr>planeSpeed := 2\<rparr>)) = 2"
    by (rule mp[OF conjunct1[OF conjunct2[OF conjunct2[OF conjunct2[OF conjunct2[OF t1]]]]]])
  have "planeAltitude init_camera = 1.05 \<and> (KEY_LEFT = KEY_LEFT) \<and> \<not> (KEY_RIGHT = KEY_LEFT)"
    by (simp add: init_camera_def)
  then have e: "planeAltitude (processInput (\<lambda>k. k = KEY_LEFT) init_camera) = 1.05"
    by (rule mp[OF conjunct1[OF conjunct2[OF conjunct2[OF conjunct2[OF conjunct2[OF conjunct2[OF conjunct2[OF conjunct2[OF t0]]]]]]]]])
  have "cameraAngleY ?s2 = 1.5 \<and> (firstMouse ?s2 \<or> 100 \<le> lastY ?s2)"
    by (simp add: init_camera_def)
  then have f: "cameraAngleY (mouse_callback 0 100 ?s2) = 1.5"
    by (rule mp[OF conjunct1[OF conjunct2[OF conjunct2[OF conjunct2[OF conjunct2[OF conjunct2[OF conjunct2[OF conjunct2[OF conjunct2[OF t2]]]]]]]]]])
  have "cameraDistance (init_camera\<lparr>cameraDistance := 10\<rparr>) = 10 \<and> (- 1::real) \<le> 0"
    by simp
  then have g: "cameraDistance (scroll_callback 0 (- 1) (init_camera\<lparr>cameraDistance := 10\<rparr>)) = 10"
    by (rule mp[OF conjunct1[OF conjunct2[OF conjunct2[OF conjunct2[OF conjunct2[OF conjunct2[OF conjunct2[OF conjunct2[OF conjunct2[OF conjunct2[OF conjunct2[OF t3]]]]]]]]]]]])
  show ?thesis using a b c d e f g by (intro conjI)
qed

subsection \<open>The orbit frame\<close>

lemma dot_cross_self:
  "dot a (cross a b) = 0" "dot b (cross a b) = 0"
  "dot (cross a b) a = 0" "dot (cross a b) b = 0"
  by (simp_all add: dot_def cross_def algebra_simps)

lemma dot_cross_cross:
  "dot (cross a b) (cross a b) = dot a a * dot b b - dot a b * dot a b"
  by (simp add: dot_def cross_def algebra_simps)

lemma dot_vsub_self:
  "dot (vsub q p) (vsub q p) = dot q q - 2 * dot q p + dot p p"
  by (simp add: dot_def vsub_def algebra_simps)

lemma dot_vsub_left: "dot (vsub q p) p = dot q p - dot p p"
  by (simp add: dot_def vsub_def algebra_simps)

lemma dot_vscale_left: "dot (vscale v k) w = k * dot v w"
  by (simp add: dot_def vscale_def algebra_simps)

lemma dot_vscale_right: "dot v (vscale w k) = k * dot v w"
  by (simp add: dot_def vscale_def algebra_simps)

text \<open>The angle of the next position. The literal \<^verbatim>\<open>0.01f\<close> is within \<open>2\<^sup>-\<^sup>3\<^sup>1\<close> of 0.01. Below
  \<open>2\<^sup>1\<^sup>8\<close> neighbouring \<^verbatim>\<open>float\<close> values are at most \<open>2\<^sup>-\<^sup>6\<close> apart, so the rounded sum is
  within \<open>2\<^sup>-\<^sup>7\<close> of the exact one and lies strictly above the angle.\<close>

lemma round32_hundredth: "\<bar>round32 (1 / 100) - 1 / 100\<bar> \<le> 1 / 2 ^ 31"
proof -
  have "\<bar>1 / 100 :: real\<bar> < 2 powr real_of_int (- 6)" by (simp add: powr_minus_divide)
  then have "\<bar>round32 (1 / 100) - 1 / 100\<bar> \<le> 2 powr real_of_int (- 6 - 25)"
    by (rule round32_error_below) simp
  moreover have "2 powr real_of_int (- 6 - 25) = (1 / 2 ^ 31 :: real)"
    by (simp add: powr_minus_divide)
  ultimately show ?thesis by simp
qed

lemma next_angle_step:
  assumes "- 262144 \<le> t" "t < 262144"
  shows "0 < round32 (t + round32 (1 / 100)) - t"
    and "round32 (t + round32 (1 / 100)) - t \<le> 179 / 10000"
proof -
  define c :: real where "c = round32 (1 / 100)"
  have c: "1 / 100 - 1 / 2 ^ 31 \<le> c" "c \<le> 1 / 100 + 1 / 2 ^ 31"
    using round32_hundredth unfolding c_def by linarith+
  have c': "99 / 10000 \<le> c" "c \<le> 10001 / 1000000"
    using c by simp_all
  have both: "0 < round32 (t + c) - t \<and> round32 (t + c) - t \<le> 179 / 10000"
  proof (cases "t + c < 262144")
    case True
    then have "\<bar>t + c\<bar> < 2 powr real_of_int 18" using assms(1) c'(1) by simp
    then have "\<bar>round32 (t + c) - (t + c)\<bar> \<le> 2 powr real_of_int (18 - 25)"
      by (rule round32_error_below) simp
    moreover have "2 powr real_of_int (18 - 25) = (1 / 128 :: real)"
      by (simp add: powr_minus_divide)
    ultimately have "\<bar>round32 (t + c) - (t + c)\<bar> \<le> 1 / 128" by simp
    then show ?thesis using c' by linarith
  next
    case False
    then have "262144 \<le> t + c" by simp
    moreover have "t + c < 262144 + 1 / 64" using assms(2) c'(2) by simp
    ultimately have "round32 (t + c) = 262144" by (rule round32_at_two_18)
    then show ?thesis using assms(2) False c'(2) by simp
  qed
  show "0 < round32 (t + round32 (1 / 100)) - t"
    and "round32 (t + round32 (1 / 100)) - t \<le> 179 / 10000"
    using both unfolding c_def by simp_all
qed

lemma cos_step_less_one:
  fixes d :: real
  assumes "0 < d" "d \<le> 1"
  shows "cos d < 1"
proof -
  have "cos d < cos 0"
    using assms pi_gt_three by (intro cos_monotone_0_pi) simp_all
  then show ?thesis by simp
qed

text \<open>Two points of the path whose angles differ by at most 1 are different.\<close>

lemma path_points_distinct:
  fixes a t t' y y' :: real
  assumes a: "0 < a" and d: "0 < t' - t" "t' - t \<le> 1"
  defines "P \<equiv> vscale (normalize_vec (Vec3 (a * cos t) y (a * sin t))) a"
  defines "Q \<equiv> vscale (normalize_vec (Vec3 (a * cos t') y' (a * sin t'))) a"
  shows "0 < dot (vsub Q P) (vsub Q P)"
proof (rule ccontr)
  assume "\<not> 0 < dot (vsub Q P) (vsub Q P)"
  then have z: "dot (vsub Q P) (vsub Q P) = 0"
    using dot_self_nonneg[of "vsub Q P"] by linarith
  define k where "k = 1 / sqrt (dot (Vec3 (a * cos t) y (a * sin t)) (Vec3 (a * cos t) y (a * sin t))) * a * a"
  define k' where "k' = 1 / sqrt (dot (Vec3 (a * cos t') y' (a * sin t'))
                                     (Vec3 (a * cos t') y' (a * sin t'))) * a * a"
  have k: "0 < k" unfolding k_def using a path_raw_nonzero[OF a, of t y] by simp
  have k': "0 < k'" unfolding k'_def using a path_raw_nonzero[OF a, of t' y'] by simp
  have Px: "vx P = k * cos t" and Pz: "vz P = k * sin t"
    by (simp_all add: P_def k_def normalize_vec_def vscale_def)
  have Qx: "vx Q = k' * cos t'" and Qz: "vz Q = k' * sin t'"
    by (simp_all add: Q_def k'_def normalize_vec_def vscale_def)
  from z have "(vx Q - vx P)\<^sup>2 + (vy Q - vy P)\<^sup>2 + (vz Q - vz P)\<^sup>2 = 0"
    by (simp add: dot_def vsub_def power2_eq_square)
  then have "(vx Q - vx P)\<^sup>2 = 0" "(vz Q - vz P)\<^sup>2 = 0"
    using zero_le_power2[of "vx Q - vx P"] zero_le_power2[of "vy Q - vy P"]
      zero_le_power2[of "vz Q - vz P"] by linarith+
  then have "vx Q = vx P" "vz Q = vz P"
    by simp_all
  then have x: "k' * cos t' = k * cos t" and zz: "k' * sin t' = k * sin t"
    using Px Pz Qx Qz by simp_all
  have "k'\<^sup>2 = (k' * cos t')\<^sup>2 + (k' * sin t')\<^sup>2"
    by (simp only: power_mult_distrib distrib_left[symmetric] sin_cos_squared_add2 mult_1_right)
  also have "\<dots> = (k * cos t)\<^sup>2 + (k * sin t)\<^sup>2"
    by (simp only: x zz)
  also have "\<dots> = k\<^sup>2"
    by (simp only: power_mult_distrib distrib_left[symmetric] sin_cos_squared_add2 mult_1_right)
  finally have "k' = k" using k k' by (simp add: power2_eq_iff_nonneg)
  then have c: "cos t' = cos t" and s: "sin t' = sin t"
    using x zz k by simp_all
  have "cos (t' - t) = cos t' * cos t + sin t' * sin t"
    by (rule cos_diff)
  also have "\<dots> = (cos t)\<^sup>2 + (sin t)\<^sup>2"
    by (simp only: c s power2_eq_square)
  also have "\<dots> = 1" by (rule sin_cos_squared_add2)
  finally have "cos (t' - t) = 1" .
  then show False using cos_step_less_one[OF d] by simp
qed

text \<open>The frame built from two different points \<open>P\<close>, \<open>Q\<close> of a sphere of radius \<open>a\<close>.\<close>

lemma chord_frame:
  fixes a :: real and P Q :: vec3
  assumes a: "0 < a" and P: "dot P P = a * a" and Q: "dot Q Q = a * a"
    and d: "0 < dot (vsub Q P) (vsub Q P)"
  defines "f \<equiv> normalize_vec (vsub Q P)"
  defines "u0 \<equiv> normalize_vec P"
  defines "r \<equiv> cross f u0"
  defines "u \<equiv> cross r f"
  shows "dot f r = 0" "dot f u = 0" "dot r u = 0"
    and "dot f f = 1"
    and "dot r r = 1 - dot f u0 * dot f u0"
    and "dot u u = dot r r"
    and "dot f u0 < 0"
    and "dot r r < 1"
proof -
  show "dot f r = 0" "dot f u = 0" "dot r u = 0"
    by (simp_all add: r_def u_def dot_cross_self)
  show ff: "dot f f = 1" unfolding f_def using d by (rule dot_normalize)
  have "0 < dot P P" using a P by simp
  then have uu: "dot u0 u0 = 1" unfolding u0_def by (rule dot_normalize)
  show rr: "dot r r = 1 - dot f u0 * dot f u0"
    by (simp add: r_def dot_cross_cross ff uu)
  have "dot r f = 0" by (simp add: r_def dot_cross_self)
  then show "dot u u = dot r r"
    by (simp add: u_def dot_cross_cross ff)
  have "dot (vsub Q P) (vsub Q P) = 2 * (a * a) - 2 * dot Q P"
    by (simp add: dot_vsub_self P Q)
  then have neg: "dot (vsub Q P) P < 0"
    using d by (simp add: dot_vsub_left P)
  have "dot f u0 = 1 / sqrt (dot (vsub Q P) (vsub Q P)) * (1 / sqrt (dot P P)) * dot (vsub Q P) P"
    by (simp add: f_def u0_def normalize_vec_def dot_vscale_left dot_vscale_right)
  moreover have "0 < 1 / sqrt (dot (vsub Q P) (vsub Q P)) * (1 / sqrt (dot P P))"
    using d a P by simp
  ultimately show fu: "dot f u0 < 0"
    using neg by (simp only: mult_pos_neg)
  then have "0 < dot f u0 * dot f u0" by (simp add: mult_neg_neg)
  then show "dot r r < 1" using rr by simp
qed

lemma plane_view_fields:
  "nextPos (plane_view s) =
     vscale (normalize_vec (Vec3 (planeAltitude s * cos (round32 (planeAngle s + round32 (1 / 100))))
                                 (sin (round32 (planeAngle s + round32 (1 / 100)) * 2) * 0.4)
                                 (planeAltitude s * sin (round32 (planeAngle s + round32 (1 / 100))))))
            (planeAltitude s)"
  "forward (plane_view s) = normalize_vec (vsub (nextPos (plane_view s)) (planePos (plane_view s)))"
  "right (plane_view s) = cross (forward (plane_view s)) (normalize_vec (planePos (plane_view s)))"
  "up (plane_view s) = cross (right (plane_view s)) (forward (plane_view s))"
  by (simp_all add: plane_view_def Let_def)

lemma plane_view_frame:
  assumes a: "0 < planeAltitude s" and t: "- 262144 \<le> planeAngle s" "planeAngle s < 262144"
  defines "l \<equiv> plane_view s"
  shows "dot (forward l) (right l) = 0" "dot (forward l) (up l) = 0" "dot (right l) (up l) = 0"
    and "vlength (forward l) = 1"
    and "vlength (right l) = sqrt (1 - (dot (forward l) (normalize_vec (planePos l)))\<^sup>2)"
    and "vlength (up l) = vlength (right l)"
    and "vlength (right l) < 1"
proof -
  let ?P = "planePos l" and ?Q = "nextPos l"
  have P: "dot ?P ?P = planeAltitude s * planeAltitude s"
    unfolding l_def planePos_plane_view by (rule dot_path_point[OF a])
  have Q: "dot ?Q ?Q = planeAltitude s * planeAltitude s"
    unfolding l_def plane_view_fields by (rule dot_path_point[OF a])
  have "round32 (planeAngle s + round32 (1 / 100)) - planeAngle s \<le> 1"
    using next_angle_step(2)[OF t] by simp
  then have d: "0 < dot (vsub ?Q ?P) (vsub ?Q ?P)"
    unfolding l_def plane_view_fields planePos_plane_view
    by (intro path_points_distinct[OF a next_angle_step(1)[OF t]])
  note fr = chord_frame[OF a P Q d]
  have f: "forward l = normalize_vec (vsub ?Q ?P)"
    and r: "right l = cross (forward l) (normalize_vec ?P)"
    and u: "up l = cross (right l) (forward l)"
    unfolding l_def by (rule plane_view_fields)+
  show "dot (forward l) (right l) = 0" "dot (forward l) (up l) = 0" "dot (right l) (up l) = 0"
    unfolding u r unfolding f by (rule fr)+
  show "vlength (forward l) = 1"
    unfolding f vlength_def using fr(4) by simp
  have rr: "dot (right l) (right l) =
            1 - dot (forward l) (normalize_vec ?P) * dot (forward l) (normalize_vec ?P)"
    unfolding r unfolding f by (rule fr(5))
  then show "vlength (right l) = sqrt (1 - (dot (forward l) (normalize_vec (planePos l)))\<^sup>2)"
    by (simp add: vlength_def power2_eq_square)
  have "dot (up l) (up l) = dot (right l) (right l)"
    unfolding u unfolding r unfolding f by (rule fr(6))
  then show "vlength (up l) = vlength (right l)"
    by (simp add: vlength_def)
  have "dot (right l) (right l) < 1"
    unfolding r unfolding f by (rule fr(8))
  then show "vlength (right l) < 1"
    by (simp add: vlength_def)
qed

lemma cauchy_schwarz: "dot v w \<le> sqrt (dot v v) * sqrt (dot w w)"
proof -
  have "0 \<le> dot (cross v w) (cross v w)" by (rule dot_self_nonneg)
  then have "(dot v w)\<^sup>2 \<le> dot v v * dot w w"
    by (simp add: dot_cross_cross power2_eq_square)
  then have "sqrt ((dot v w)\<^sup>2) \<le> sqrt (dot v v * dot w w)"
    by (rule real_sqrt_le_mono)
  then have "\<bar>dot v w\<bar> \<le> sqrt (dot v v) * sqrt (dot w w)"
    by (simp add: real_sqrt_mult)
  then show ?thesis by linarith
qed

text \<open>Scaling two vectors of length at least \<open>a\<close> back to length \<open>a\<close> brings them closer.\<close>

lemma normalize_contracts:
  fixes a :: real and v w :: vec3
  assumes a: "0 < a" and v: "a * a \<le> dot v v" and w: "a * a \<le> dot w w"
  defines "P \<equiv> vscale (normalize_vec v) a" and "Q \<equiv> vscale (normalize_vec w) a"
  shows "dot (vsub Q P) (vsub Q P) \<le> dot (vsub w v) (vsub w v)"
proof -
  define m where "m = sqrt (dot v v)"
  define m' where "m' = sqrt (dot w w)"
  define c where "c = dot w v"
  have aa: "0 < a * a" using a by simp
  have vpos: "0 < dot v v" and wpos: "0 < dot w w" using aa v w by linarith+
  have ma: "a \<le> m" unfolding m_def using v by (intro real_le_rsqrt) (simp add: power2_eq_square)
  have m'a: "a \<le> m'" unfolding m'_def using w by (intro real_le_rsqrt) (simp add: power2_eq_square)
  have mpos: "0 < m" and m'pos: "0 < m'" using a ma m'a by linarith+
  have mm: "m * m = dot v v" and m'm': "m' * m' = dot w w"
    using vpos wpos by (simp_all add: m_def m'_def)
  have cs: "c \<le> m' * m" unfolding c_def m_def m'_def by (rule cauchy_schwarz)
  have PP: "dot P P = a * a" and QQ: "dot Q Q = a * a"
    unfolding P_def Q_def
    by (simp_all only: dot_vscale dot_normalize[OF vpos] dot_normalize[OF wpos] mult_1_right)
  have QP: "dot Q P = a * a / (m' * m) * c"
    by (simp add: P_def Q_def normalize_vec_def dot_vscale_left dot_vscale_right m_def m'_def c_def
        mult_ac)
  define k where "k = a * a / (m' * m)"
  have "a * a \<le> m' * m" using a ma m'a by (intro mult_mono) simp_all
  then have k1: "k \<le> 1" and k0: "0 \<le> k"
    unfolding k_def using mpos m'pos a by (simp_all add: field_simps)
  have kmm: "k * (m' * m) = a * a" unfolding k_def using mpos m'pos by simp
  have "dot (vsub Q P) (vsub Q P) = 2 * (a * a) - 2 * (k * c)"
    by (simp add: dot_vsub_self PP QQ QP k_def)
  also have "\<dots> = 2 * (k * (m' * m - c))"
    using kmm by (simp add: algebra_simps)
  also have "\<dots> \<le> 2 * (1 * (m' * m - c))"
    using k1 cs by (intro mult_left_mono mult_right_mono) simp_all
  also have "\<dots> \<le> m' * m' + m * m - 2 * c"
  proof -
    have "0 \<le> (m' - m) * (m' - m)" by simp
    then show ?thesis by (simp add: algebra_simps)
  qed
  also have "\<dots> = dot (vsub w v) (vsub w v)"
    by (simp add: dot_vsub_self mm m'm' c_def)
  finally show ?thesis .
qed

lemma abs_sin_diff_le: "\<bar>sin x - sin y\<bar> \<le> \<bar>x - y\<bar>" for x y :: real
proof -
  have "\<bar>sin x - sin y\<bar> = 2 * \<bar>sin ((x - y) / 2)\<bar> * \<bar>cos ((x + y) / 2)\<bar>"
    by (simp add: sin_diff_sin abs_mult)
  also have "\<dots> \<le> 2 * \<bar>(x - y) / 2\<bar> * 1"
    by (intro mult_mono abs_sin_x_le_abs_x) simp_all
  finally show ?thesis by simp
qed

lemma chord_of_unit_circle:
  "(cos x - cos y)\<^sup>2 + (sin x - sin y)\<^sup>2 \<le> (x - y)\<^sup>2" for x y :: real
proof -
  have "(cos x - cos y)\<^sup>2 + (sin x - sin y)\<^sup>2 =
        ((cos x)\<^sup>2 + (sin x)\<^sup>2) + ((cos y)\<^sup>2 + (sin y)\<^sup>2) - 2 * (cos x * cos y + sin x * sin y)"
    by (simp add: power2_eq_square algebra_simps)
  also have "\<dots> = 2 - 2 * cos (x - y)"
    by (simp only: sin_cos_squared_add2 cos_diff)
  also have "\<dots> = 4 * (sin ((x - y) / 2))\<^sup>2"
  proof -
    have "2 * ((x - y) / 2) = x - y" by simp
    then have "cos (x - y) = 1 - 2 * (sin ((x - y) / 2))\<^sup>2"
      using cos_double_sin[of "(x - y) / 2"] by (simp only:)
    then show ?thesis by simp
  qed
  also have "\<dots> \<le> 4 * ((x - y) / 2)\<^sup>2"
  proof -
    have "\<bar>sin ((x - y) / 2)\<bar> \<le> \<bar>(x - y) / 2\<bar>" by (rule abs_sin_x_le_abs_x)
    then have "(sin ((x - y) / 2))\<^sup>2 \<le> ((x - y) / 2)\<^sup>2" by (rule abs_le_square_iff[THEN iffD1])
    then show ?thesis by simp
  qed
  also have "\<dots> = (x - y)\<^sup>2" by (simp add: power2_eq_square)
  finally show ?thesis .
qed

lemma dot_vsub_raw:
  "dot (vsub (Vec3 (a * c') (y' * h) (a * s')) (Vec3 (a * c) (y * h) (a * s)))
       (vsub (Vec3 (a * c') (y' * h) (a * s')) (Vec3 (a * c) (y * h) (a * s))) =
     a * a * ((c' - c)\<^sup>2 + (s' - s)\<^sup>2) + h * h * (y' - y)\<^sup>2"
  by (simp add: dot_def vsub_def power2_eq_square algebra_simps)

text \<open>The raw path vectors at two angles are as close as the angles.\<close>

lemma raw_step_bound:
  fixes a t t' :: real
  defines "v \<equiv> Vec3 (a * cos t) (sin (t * 2) * 0.4) (a * sin t)"
  defines "w \<equiv> Vec3 (a * cos t') (sin (t' * 2) * 0.4) (a * sin t')"
  shows "dot (vsub w v) (vsub w v) \<le> (a * a + 0.64) * (t' - t)\<^sup>2"
proof -
  let ?t' = "t'"
  have "dot (vsub w v) (vsub w v) =
        a * a * ((cos ?t' - cos t)\<^sup>2 + (sin ?t' - sin t)\<^sup>2) +
        0.4 * 0.4 * (sin (?t' * 2) - sin (t * 2))\<^sup>2"
    unfolding v_def w_def by (rule dot_vsub_raw)
  also have "\<dots> \<le> a * a * (?t' - t)\<^sup>2 + 0.4 * 0.4 * (?t' * 2 - t * 2)\<^sup>2"
  proof (intro add_mono mult_left_mono chord_of_unit_circle)
    have "\<bar>sin (?t' * 2) - sin (t * 2)\<bar> \<le> \<bar>?t' * 2 - t * 2\<bar>" by (rule abs_sin_diff_le)
    then show "(sin (?t' * 2) - sin (t * 2))\<^sup>2 \<le> (?t' * 2 - t * 2)\<^sup>2"
      by (rule abs_le_square_iff[THEN iffD1])
  qed simp_all
  also have "\<dots> = (a * a + 0.64) * (t' - t)\<^sup>2"
    by (simp add: power2_eq_square algebra_simps)
  finally show ?thesis .
qed

lemma chord_frame_tilt:
  fixes a :: real and P Q :: vec3
  assumes a: "0 < a" and P: "dot P P = a * a" and Q: "dot Q Q = a * a"
    and d: "0 < dot (vsub Q P) (vsub Q P)"
  shows "dot (normalize_vec (vsub Q P)) (normalize_vec P) *
         dot (normalize_vec (vsub Q P)) (normalize_vec P) =
         dot (vsub Q P) (vsub Q P) / (4 * (a * a))"
proof -
  define D where "D = dot (vsub Q P) (vsub Q P)"
  define sD where "sD = sqrt D"
  have D: "0 < D" using d by (simp add: D_def)
  have sD: "0 < sD" and sD2: "sD * sD = D" using D by (simp_all add: sD_def)
  have "D = 2 * (a * a) - 2 * dot Q P"
    by (simp add: D_def dot_vsub_self P Q)
  then have n: "dot (vsub Q P) P = - (D / 2)"
    by (simp only: dot_vsub_left P) (simp add: field_simps)
  have sa: "sqrt (dot P P) = a" using a by (simp add: P)
  have "dot (normalize_vec (vsub Q P)) (normalize_vec P) = 1 / sD * (1 / a) * (- (D / 2))"
    by (simp add: normalize_vec_def dot_vscale_left dot_vscale_right n sa
        D_def[symmetric] sD_def[symmetric])
  also have "\<dots> = - (sD / (2 * a))"
    using sD a by (simp add: sD2[symmetric] field_simps)
  finally have "dot (normalize_vec (vsub Q P)) (normalize_vec P) *
         dot (normalize_vec (vsub Q P)) (normalize_vec P) = (sD * sD) / (4 * (a * a))"
    by (simp add: field_simps)
  then show ?thesis by (simp only: sD2 D_def)
qed

lemma plane_view_right_lower:
  assumes a: "1 \<le> planeAltitude s" and t: "- 262144 \<le> planeAngle s" "planeAngle s < 262144"
  shows "0.9999 < vlength (right (plane_view s))"
proof -
  define l where "l = plane_view s"
  define alt where "alt = planeAltitude s"
  define t' where "t' = round32 (planeAngle s + round32 (1 / 100))"
  let ?P = "planePos l" and ?Q = "nextPos l"
  let ?v = "Vec3 (alt * cos (planeAngle s)) (sin (planeAngle s * 2) * 0.4) (alt * sin (planeAngle s))"
  let ?w = "Vec3 (alt * cos t') (sin (t' * 2) * 0.4) (alt * sin t')"
  have step: "0 < t' - planeAngle s" "t' - planeAngle s \<le> 179 / 10000"
    unfolding t'_def by (rule next_angle_step[OF t])+
  then have step1: "t' - planeAngle s \<le> 1" by simp
  have "(t' - planeAngle s)\<^sup>2 \<le> (179 / 10000)\<^sup>2"
    using step by (intro power_mono) simp_all
  then have sq: "(t' - planeAngle s)\<^sup>2 \<le> 33 / 100000"
    by (simp add: power2_eq_square)
  have a0: "0 < alt" using a by (simp add: alt_def)
  have "1 * 1 \<le> alt * alt" using a unfolding alt_def by (intro mult_mono) simp_all
  then have a1: "1 \<le> alt * alt" by simp
  have Pv: "?P = vscale (normalize_vec ?v) alt" and Qw: "?Q = vscale (normalize_vec ?w) alt"
    by (simp_all only: l_def alt_def t'_def planePos_plane_view plane_view_fields)
  have P: "dot ?P ?P = alt * alt" unfolding Pv by (rule dot_path_point[OF a0])
  have Q: "dot ?Q ?Q = alt * alt" unfolding Qw by (rule dot_path_point[OF a0])
  have d: "0 < dot (vsub ?Q ?P) (vsub ?Q ?P)"
    unfolding Pv Qw by (rule path_points_distinct[OF a0 step(1) step1])
  have v: "alt * alt \<le> dot ?v ?v" and w: "alt * alt \<le> dot ?w ?w"
    by (simp_all add: dot_path_raw power2_eq_square)
  have "dot (vsub ?Q ?P) (vsub ?Q ?P) \<le> dot (vsub ?w ?v) (vsub ?w ?v)"
    unfolding Pv Qw by (rule normalize_contracts[OF a0 v w])
  also have "\<dots> \<le> (alt * alt + 0.64) * (t' - planeAngle s)\<^sup>2"
    by (rule raw_step_bound)
  also have "\<dots> \<le> (alt * alt + 0.64) * (33 / 100000)"
    using sq by (intro mult_left_mono) simp_all
  also have "\<dots> \<le> 4 * (alt * alt) * (15 / 100000)"
    using a1 by simp
  finally have D: "dot (vsub ?Q ?P) (vsub ?Q ?P) \<le> 4 * (alt * alt) * (15 / 100000)" .
  have f: "forward l = normalize_vec (vsub ?Q ?P)"
    and r: "right l = cross (forward l) (normalize_vec ?P)"
    unfolding l_def by (rule plane_view_fields)+
  have "dot (right l) (right l) =
        1 - dot (forward l) (normalize_vec ?P) * dot (forward l) (normalize_vec ?P)"
    unfolding r unfolding f by (rule chord_frame(5)[OF a0 P Q d])
  also have "\<dots> = 1 - dot (vsub ?Q ?P) (vsub ?Q ?P) / (4 * (alt * alt))"
    unfolding f by (simp only: chord_frame_tilt[OF a0 P Q d])
  also have "\<dots> \<ge> 1 - (4 * (alt * alt) * (15 / 100000)) / (4 * (alt * alt))"
    using D a0 by (intro diff_left_mono divide_right_mono) simp_all
  finally have "0.99985 \<le> dot (right l) (right l)"
    using a0 by simp
  then have "(0.9999::real)\<^sup>2 < dot (right l) (right l)"
    by (simp add: power2_eq_square)
  then have "0.9999 < sqrt (dot (right l) (right l))"
    by (rule real_less_rsqrt)
  then show ?thesis by (simp only: vlength_def l_def)
qed

lemma upward_getViewMatrix_auto:
  "\<not> manualControl s \<Longrightarrow>
   upward (fst (getViewMatrix deltaTime s)) = up (plane_view (snd (getViewMatrix deltaTime s)))"
  by (simp add: getViewMatrix_auto Let_def)

lemma round32_bound:
  assumes "\<bar>x\<bar> < 2 powr real_of_int k" "- 125 \<le> k"
  shows "\<bar>round32 x\<bar> < 2 powr real_of_int (k + 1)"
proof -
  have "\<bar>round32 x - x\<bar> \<le> 2 powr real_of_int (k - 25)"
    by (rule round32_error_below[OF assms])
  moreover have "(2::real) powr real_of_int (k - 25) \<le> 2 powr real_of_int k" by simp
  moreover have "(2::real) powr real_of_int (k + 1) = 2 * 2 powr real_of_int k"
    by (simp add: powr_add)
  ultimately show ?thesis using assms(1) by linarith
qed

text \<open>The angle after the first frame of the program, which takes 1/60 s.\<close>

lemma first_frame_angle:
  "- 262144 \<le> planeAngle (snd (getViewMatrix (1 / 60) init_camera))"
  "planeAngle (snd (getViewMatrix (1 / 60) init_camera)) < 262144"
proof -
  have "\<bar>3 / 10 * (1 / 60) :: real\<bar> < 2 powr real_of_int 0" by simp
  then have "\<bar>round32 (3 / 10 * (1 / 60))\<bar> < 2 powr real_of_int (0 + 1)"
    by (rule round32_bound) simp
  then have "\<bar>0 + round32 (3 / 10 * (1 / 60))\<bar> < 2 powr real_of_int 1" by simp
  then have "\<bar>round32 (0 + round32 (3 / 10 * (1 / 60)))\<bar> < 2 powr real_of_int (1 + 1)"
    by (rule round32_bound) simp
  then have "\<bar>planeAngle (snd (getViewMatrix (1 / 60) init_camera))\<bar> < 4"
    by (simp add: getViewMatrix_angle init_camera_def)
  then show "- 262144 \<le> planeAngle (snd (getViewMatrix (1 / 60) init_camera))"
    "planeAngle (snd (getViewMatrix (1 / 60) init_camera)) < 262144"
    by linarith+
qed

text \<open>At the angle \<open>2\<^sup>1\<^sup>8\<close> the \<^verbatim>\<open>float\<close> sum \<^verbatim>\<open>planeAngle + 0.01f\<close> is the angle: the next
  position is the position, and \<open>forward\<close> is the normalized zero vector (NaN components
  in the program, the zero vector in HOL).\<close>

lemma plane_view_stalled:
  assumes "planeAngle s = 262144"
  shows "nextPos (plane_view s) = planePos (plane_view s)"
    and "vlength (forward (plane_view s)) = 0"
proof -
  have "\<bar>round32 (1 / 100) - 1 / 100\<bar> \<le> 1 / 2 ^ 31" by (rule round32_hundredth)
  moreover have "(1::real) / 2 ^ 31 < 1 / 200" by simp
  ultimately have "0 \<le> round32 (1 / 100)" "round32 (1 / 100) < 1 / 64"
    by linarith+
  then have "262144 \<le> 262144 + round32 (1 / 100)"
    and "262144 + round32 (1 / 100) < 262144 + 1 / 64"
    by simp_all
  then have n: "round32 (planeAngle s + round32 (1 / 100)) = planeAngle s"
    unfolding assms by (rule round32_at_two_18)
  show e: "nextPos (plane_view s) = planePos (plane_view s)"
    by (simp only: plane_view_fields(1) planePos_plane_view n)
  show "vlength (forward (plane_view s)) = 0"
    by (simp add: plane_view_fields(2) e vsub_def normalize_vec_def vscale_def dot_def vlength_def)
qed

text \<open>
  Claim C3, as the specification states it, asks for unit length of all three vectors
  at any angle. In the first frame of the program (initial state, elapsed time 1/60)
  \<open>right\<close> and the recomputed \<open>up\<close>, which is the one handed to \<^verbatim>\<open>lookAt\<close>, are shorter
  than 1. In a frame at the angle \<open>262144\<close> the next position is the position, and
  \<open>forward\<close> does not have length 1 either.
\<close>

theorem orbit_frame_not_orthonormal:
  "vlength (right (plane_view (snd (getViewMatrix (1 / 60) init_camera)))) < 1 \<and>
   vlength (up (plane_view (snd (getViewMatrix (1 / 60) init_camera)))) < 1 \<and>
   upward (fst (getViewMatrix (1 / 60) init_camera)) =
     up (plane_view (snd (getViewMatrix (1 / 60) init_camera))) \<and>
   nextPos (plane_view (init_camera\<lparr>planeAngle := 262144\<rparr>)) =
     planePos (plane_view (init_camera\<lparr>planeAngle := 262144\<rparr>)) \<and>
   vlength (forward (plane_view (init_camera\<lparr>planeAngle := 262144\<rparr>))) \<noteq> 1"
proof -
  have st: "planeAngle (init_camera\<lparr>planeAngle := 262144\<rparr>) = 262144" by simp
  have stalled: "nextPos (plane_view (init_camera\<lparr>planeAngle := 262144\<rparr>)) =
     planePos (plane_view (init_camera\<lparr>planeAngle := 262144\<rparr>))"
    "vlength (forward (plane_view (init_camera\<lparr>planeAngle := 262144\<rparr>))) \<noteq> 1"
    using plane_view_stalled[OF st] by simp_all
  have m: "\<not> manualControl init_camera" by (simp add: init_camera_def)
  have "planeAltitude (snd (getViewMatrix (1 / 60) init_camera)) = planeAltitude init_camera"
    by (rule getViewMatrix_keeps)
  then have a: "0 < planeAltitude (snd (getViewMatrix (1 / 60) init_camera))"
    by (simp add: init_camera_def)
  show ?thesis
    using plane_view_frame(6,7)[OF a first_frame_angle]
      upward_getViewMatrix_auto[OF m, of "1 / 60"] stalled
    by simp
qed

text \<open>
  Claim C3, as amended. In automatic mode, for every altitude in \<open>[1.05, 2]\<close> and every
  angle of the frame from \<open>-262144\<close> up to, but less than, \<open>262144 = 2\<^sup>1\<^sup>8\<close>, the vectors
  \<open>forward\<close>, \<open>right\<close> and \<open>up\<close> computed in the frame are pairwise orthogonal and \<open>forward\<close>
  has length 1. \<open>right\<close> and \<open>up\<close> are not normalized: both have length
  \<open>sqrt (1 - (forward \<cdot> p)\<^sup>2)\<close>, where \<open>p\<close> is the normalized plane position, and this
  length lies strictly between 0.9999 and 1, because the chord \<open>forward\<close> is never
  perpendicular to the radius \<open>p\<close>. (From \<open>2\<^sup>1\<^sup>8\<close> on the \<^verbatim>\<open>float\<close> sum \<^verbatim>\<open>planeAngle + 0.01f\<close>
  can be the angle itself; then the next position is the position, and \<open>forward\<close> is the
  normalized zero vector.)
\<close>

theorem orbit_frame_orthogonal:
  assumes "\<not> manualControl s" "1.05 \<le> planeAltitude s" "planeAltitude s \<le> 2"
    "- 262144 \<le> planeAngle (snd (getViewMatrix deltaTime s))"
    "planeAngle (snd (getViewMatrix deltaTime s)) < 262144"
  shows "let l = plane_view (snd (getViewMatrix deltaTime s))
         in upward (fst (getViewMatrix deltaTime s)) = up l \<and>
            dot (forward l) (right l) = 0 \<and>
            dot (forward l) (up l) = 0 \<and>
            dot (right l) (up l) = 0 \<and>
            vlength (forward l) = 1 \<and>
            vlength (right l) = sqrt (1 - (dot (forward l) (normalize_vec (planePos l)))\<^sup>2) \<and>
            vlength (up l) = vlength (right l) \<and>
            0.9999 < vlength (right l) \<and>
            vlength (right l) < 1"
proof -
  let ?s = "snd (getViewMatrix deltaTime s)"
  have alt: "planeAltitude ?s = planeAltitude s" by (rule getViewMatrix_keeps)
  have a0: "0 < planeAltitude ?s" and a1: "1 \<le> planeAltitude ?s"
    using assms(2) by (simp_all add: alt)
  show ?thesis
    unfolding Let_def
    using upward_getViewMatrix_auto[OF assms(1), of deltaTime]
      plane_view_frame[OF a0 assms(4,5)] plane_view_right_lower[OF a1 assms(4,5)]
    by (intro conjI)
qed

theorem orbit_frame_orthogonal_witness:
  "\<not> manualControl init_camera \<and> 1.05 \<le> planeAltitude init_camera \<and>
   planeAltitude init_camera \<le> 2 \<and>
   - 262144 \<le> planeAngle (snd (getViewMatrix (1 / 60) init_camera)) \<and>
   planeAngle (snd (getViewMatrix (1 / 60) init_camera)) < 262144 \<and>
   dot (forward (plane_view (snd (getViewMatrix (1 / 60) init_camera))))
       (up (plane_view (snd (getViewMatrix (1 / 60) init_camera)))) = 0 \<and>
   vlength (forward (plane_view (snd (getViewMatrix (1 / 60) init_camera)))) = 1 \<and>
   0.9999 < vlength (right (plane_view (snd (getViewMatrix (1 / 60) init_camera))))"
proof -
  have h: "\<not> manualControl init_camera" "1.05 \<le> planeAltitude init_camera"
    "planeAltitude init_camera \<le> 2"
    by (simp_all add: init_camera_def)
  note g = first_frame_angle
  note t = orbit_frame_orthogonal[OF h g, unfolded Let_def]
  have a: "dot (forward (plane_view (snd (getViewMatrix (1 / 60) init_camera))))
       (up (plane_view (snd (getViewMatrix (1 / 60) init_camera)))) = 0"
    by (rule conjunct1[OF conjunct2[OF conjunct2[OF t]]])
  have b: "vlength (forward (plane_view (snd (getViewMatrix (1 / 60) init_camera)))) = 1"
    by (rule conjunct1[OF conjunct2[OF conjunct2[OF conjunct2[OF conjunct2[OF t]]]]])
  have c: "0.9999 < vlength (right (plane_view (snd (getViewMatrix (1 / 60) init_camera))))"
    by (rule conjunct1[OF conjunct2[OF conjunct2[OF conjunct2[OF conjunct2[OF conjunct2[OF conjunct2[OF conjunct2[OF t]]]]]]]])
  show ?thesis using h g a b c by (intro conjI)
qed

end
